theory Spec2Isabelle
  imports Main "HOL-Library.Word" "HOL-Library.Sublist"
begin

section \<open>JavaScript strings\<close>

text \<open>
  A JavaScript string is a sequence of 16-bit UTF-16 code units; \<open>length\<close>,
  \<open>startsWith\<close>, \<open>lastIndexOf\<close>, \<open>substring\<close>, \<open>trim\<close> and the regular expression of
  the playlist rewrite all work on code units. String literals of the source are written
  \<open>js ''...''\<close>.
\<close>

type_synonym code_unit = "16 word"
type_synonym jsstring = "code_unit list"

definition js :: "string \<Rightarrow> jsstring" where
  "js s = map of_char s"

text \<open>\<open>s.startsWith(p)\<close>.\<close>

definition startsWith :: "jsstring \<Rightarrow> jsstring \<Rightarrow> bool" where
  "startsWith s p = (take (length p) s = p)"

text \<open>\<open>s.indexOf(p) \<ge> 0\<close>: \<open>p\<close> occurs somewhere in \<open>s\<close>.\<close>

fun contains :: "jsstring \<Rightarrow> jsstring \<Rightarrow> bool" where
  "contains [] p = (p = [])"
| "contains (c # cs) p = (startsWith (c # cs) p \<or> contains cs p)"

text \<open>
  \<open>s.substring(0, s.lastIndexOf('/') + 1)\<close>: the prefix of \<open>s\<close> up to and including the
  last \<open>/\<close>. When \<open>s\<close> has no \<open>/\<close>, \<open>lastIndexOf\<close> is \<open>-1\<close> and the substring is
  empty.
\<close>

fun upto_last_slash :: "jsstring \<Rightarrow> jsstring" where
  "upto_last_slash [] = []"
| "upto_last_slash (c # cs) =
     (if 0x2F \<in> set cs then c # upto_last_slash cs
      else if c = 0x2F then [c] else [])"

text \<open>
  The code units that \<open>String.prototype.trim\<close> strips from both ends: ECMAScript's
  WhiteSpace (TAB, VT, FF, SP, NBSP, ZWNBSP and the Unicode space separators) and
  LineTerminator (LF, CR, LS, PS).
\<close>

definition isLineTerminator :: "code_unit \<Rightarrow> bool" where
  "isLineTerminator c = (c = 0x0A \<or> c = 0x0D \<or> c = 0x2028 \<or> c = 0x2029)"

definition isWhiteSpace :: "code_unit \<Rightarrow> bool" where
  "isWhiteSpace c =
     (c = 0x09 \<or> c = 0x0B \<or> c = 0x0C \<or> c = 0x20 \<or> c = 0xA0 \<or> c = 0xFEFF \<or>
      c = 0x1680 \<or> (0x2000 \<le> c \<and> c \<le> 0x200A) \<or> c = 0x202F \<or> c = 0x205F \<or>
      c = 0x3000)"

definition trim :: "jsstring \<Rightarrow> jsstring" where
  "trim s =
     rev (dropWhile (\<lambda>c. isWhiteSpace c \<or> isLineTerminator c)
       (rev (dropWhile (\<lambda>c. isWhiteSpace c \<or> isLineTerminator c) s)))"

text \<open>\<open>`${n}`\<close> for a non-negative integer \<open>n\<close>: its decimal digits.\<close>

fun decimal :: "nat \<Rightarrow> jsstring" where
  "decimal n =
     (if n < 10 then [0x30 + of_nat n]
      else decimal (n div 10) @ [0x30 + of_nat (n mod 10)])"

section \<open>encodeURIComponent and decodeURIComponent\<close>

text \<open>
  Both are built-ins of the language (ECMA-262, operations Encode and Decode). The
  handlers call them on every request, and both throw \<open>URIError\<close>; \<open>None\<close> is that
  exception.
\<close>

text \<open>The set the specification calls \<open>uriUnescaped\<close>: letters, digits and \<open>-_.!~*'()\<close>.\<close>

definition uriUnescaped :: "code_unit \<Rightarrow> bool" where
  "uriUnescaped c =
     ((0x41 \<le> c \<and> c \<le> 0x5A) \<or> (0x61 \<le> c \<and> c \<le> 0x7A) \<or> (0x30 \<le> c \<and> c \<le> 0x39) \<or>
      c = 0x2D \<or> c = 0x5F \<or> c = 0x2E \<or> c = 0x21 \<or> c = 0x7E \<or> c = 0x2A \<or>
      c = 0x27 \<or> c = 0x28 \<or> c = 0x29)"

definition isHighSurrogate :: "code_unit \<Rightarrow> bool" where
  "isHighSurrogate c = (0xD800 \<le> c \<and> c \<le> 0xDBFF)"

definition isLowSurrogate :: "code_unit \<Rightarrow> bool" where
  "isLowSurrogate c = (0xDC00 \<le> c \<and> c \<le> 0xDFFF)"

text \<open>The code point of a surrogate pair.\<close>

definition UTF16SurrogatePairToCodePoint :: "code_unit \<Rightarrow> code_unit \<Rightarrow> nat" where
  "UTF16SurrogatePairToCodePoint lead trail =
     (unat lead - 0xD800) * 0x400 + (unat trail - 0xDC00) + 0x10000"

text \<open>The code units of a code point (\<open>UTF16EncodeCodePoint\<close>).\<close>

definition UTF16EncodeCodePoint :: "nat \<Rightarrow> jsstring" where
  "UTF16EncodeCodePoint cp =
     (if cp \<le> 0xFFFF then [of_nat cp]
      else [of_nat ((cp - 0x10000) div 0x400 + 0xD800),
            of_nat ((cp - 0x10000) mod 0x400 + 0xDC00)])"

text \<open>The octets of the UTF-8 encoding of a code point.\<close>

definition utf8_octets :: "nat \<Rightarrow> nat list" where
  "utf8_octets cp =
     (if cp < 0x80 then [cp]
      else if cp < 0x800 then [0xC0 + cp div 0x40, 0x80 + cp mod 0x40]
      else if cp < 0x10000 then
        [0xE0 + cp div 0x1000, 0x80 + (cp div 0x40) mod 0x40, 0x80 + cp mod 0x40]
      else
        [0xF0 + cp div 0x40000, 0x80 + (cp div 0x1000) mod 0x40,
         0x80 + (cp div 0x40) mod 0x40, 0x80 + cp mod 0x40])"

text \<open>An upper-case hexadecimal digit, and the escape \<open>%XY\<close> of an octet.\<close>

definition hexDigit :: "nat \<Rightarrow> code_unit" where
  "hexDigit d = (if d < 10 then 0x30 + of_nat d else 0x41 + of_nat (d - 10))"

definition escapeOctet :: "nat \<Rightarrow> jsstring" where
  "escapeOctet b = [0x25, hexDigit (b div 16), hexDigit (b mod 16)]"

definition escapeOctets :: "nat list \<Rightarrow> jsstring" where
  "escapeOctets bs = concat (map escapeOctet bs)"

text \<open>
  \<open>encodeURIComponent(s)\<close>: an unescaped code unit is copied; any other code point is
  written as the escapes of its UTF-8 octets; a surrogate that is not part of a pair
  throws \<open>URIError\<close>.
\<close>

fun encodeURIComponent :: "jsstring \<Rightarrow> jsstring option" where
  "encodeURIComponent [] = Some []"
| "encodeURIComponent (c # cs) =
     (if uriUnescaped c then map_option ((#) c) (encodeURIComponent cs)
      else if isLowSurrogate c then None
      else if isHighSurrogate c then
        (case cs of
           [] \<Rightarrow> None
         | d # ds \<Rightarrow>
             if isLowSurrogate d then
               map_option ((@) (escapeOctets (utf8_octets (UTF16SurrogatePairToCodePoint c d))))
                 (encodeURIComponent ds)
             else None)
      else map_option ((@) (escapeOctets (utf8_octets (unat c)))) (encodeURIComponent cs))"

text \<open>The value of a hexadecimal digit, upper or lower case.\<close>

definition hexValue :: "code_unit \<Rightarrow> nat option" where
  "hexValue c =
     (if 0x30 \<le> c \<and> c \<le> 0x39 then Some (unat c - 0x30)
      else if 0x41 \<le> c \<and> c \<le> 0x46 then Some (unat c - 0x41 + 10)
      else if 0x61 \<le> c \<and> c \<le> 0x66 then Some (unat c - 0x61 + 10)
      else None)"

text \<open>\<open>ParseHexOctet\<close>: the octet written by the first two code units, if they are hex digits.\<close>

fun ParseHexOctet :: "jsstring \<Rightarrow> nat option" where
  "ParseHexOctet (h # l # cs) =
     (case hexValue h of
        None \<Rightarrow> None
      | Some hv \<Rightarrow> (case hexValue l of None \<Rightarrow> None | Some lv \<Rightarrow> Some (16 * hv + lv)))"
| "ParseHexOctet cs = None"

text \<open>
  The \<open>n\<close> octets that must follow the first octet of a multi-octet sequence, each written
  as \<open>%XY\<close>.
\<close>

fun continuationOctets :: "nat \<Rightarrow> jsstring \<Rightarrow> nat list option" where
  "continuationOctets 0 cs = Some []"
| "continuationOctets (Suc n) cs =
     (case cs of
        [] \<Rightarrow> None
      | c # cs' \<Rightarrow>
          if c \<noteq> 0x25 then None
          else (case ParseHexOctet cs' of
                  None \<Rightarrow> None
                | Some b \<Rightarrow> map_option ((#) b) (continuationOctets n (drop 2 cs'))))"

text \<open>The number of leading 1 bits of an octet.\<close>

definition leadingOnes :: "nat \<Rightarrow> nat" where
  "leadingOnes b =
     (if b < 0x80 then 0 else if b < 0xC0 then 1 else if b < 0xE0 then 2
      else if b < 0xF0 then 3 else if b < 0xF8 then 4 else 5)"

text \<open>
  The code point of an octet sequence that is a valid UTF-8 encoding: continuation octets
  are \<open>10xxxxxx\<close>, the encoding is the shortest one, and the code point is neither a
  surrogate nor above \<open>0x10FFFF\<close>.
\<close>

definition isContinuation :: "nat \<Rightarrow> bool" where
  "isContinuation b = (0x80 \<le> b \<and> b < 0xC0)"

fun utf8_codepoint :: "nat list \<Rightarrow> nat option" where
  "utf8_codepoint [b0, b1] =
     (let cp = (b0 - 0xC0) * 0x40 + (b1 - 0x80) in
      if isContinuation b1 \<and> 0x80 \<le> cp then Some cp else None)"
| "utf8_codepoint [b0, b1, b2] =
     (let cp = (b0 - 0xE0) * 0x1000 + (b1 - 0x80) * 0x40 + (b2 - 0x80) in
      if isContinuation b1 \<and> isContinuation b2 \<and> 0x800 \<le> cp \<and>
         \<not> (0xD800 \<le> cp \<and> cp \<le> 0xDFFF)
      then Some cp else None)"
| "utf8_codepoint [b0, b1, b2, b3] =
     (let cp = (b0 - 0xF0) * 0x40000 + (b1 - 0x80) * 0x1000 + (b2 - 0x80) * 0x40 + (b3 - 0x80) in
      if isContinuation b1 \<and> isContinuation b2 \<and> isContinuation b3 \<and>
         0x10000 \<le> cp \<and> cp \<le> 0x10FFFF
      then Some cp else None)"
| "utf8_codepoint bs = None"

text \<open>
  \<open>decodeURIComponent(s)\<close>: a code unit other than \<open>%\<close> is copied; \<open>%XY\<close> with an
  octet below \<open>0x80\<close> is that code unit; an octet with \<open>n\<close> leading 1 bits opens a sequence
  of \<open>n\<close> escaped octets that must be valid UTF-8. Everything else throws \<open>URIError\<close>.
\<close>

function decodeURIComponent :: "jsstring \<Rightarrow> jsstring option" where
  "decodeURIComponent [] = Some []"
| "decodeURIComponent (c # cs) =
     (if c \<noteq> 0x25 then map_option ((#) c) (decodeURIComponent cs)
      else
        (case ParseHexOctet cs of
           None \<Rightarrow> None
         | Some b \<Rightarrow>
             let n = leadingOnes b in
             if n = 0 then map_option ((#) (of_nat b)) (decodeURIComponent (drop 2 cs))
             else if n = 1 \<or> n > 4 then None
             else
               (case continuationOctets (n - 1) (drop 2 cs) of
                  None \<Rightarrow> None
                | Some octets \<Rightarrow>
                    (case utf8_codepoint (b # octets) of
                       None \<Rightarrow> None
                     | Some v \<Rightarrow>
                         map_option ((@) (UTF16EncodeCodePoint v))
                           (decodeURIComponent (drop (2 + 3 * (n - 1)) cs))))))"
  by pat_completeness auto
termination
  by (relation "measure length") auto

section \<open>Values, errors and the HTTP interface\<close>

text \<open>
  The values that occur as header values and as the result of \<open>JSON.parse\<close>. A number is
  \<open>Number m e\<close> for \<open>m \<times> 10\<^sup>e\<close>; the handlers never look into one.
\<close>

datatype jsvalue =
    Undefined
  | Null
  | Boolean bool
  | Number int int
  | String jsstring
  | Array "jsvalue list"
  | Object "(jsstring \<times> jsvalue) list"

type_synonym properties = "(jsstring \<times> jsvalue) list"

text \<open>
  Writing a header with \<open>res.set\<close>: an existing name keeps its place and takes the new
  value, a new name goes to the end.
\<close>

fun set_property :: "jsstring \<Rightarrow> jsvalue \<Rightarrow> properties \<Rightarrow> properties" where
  "set_property k v [] = [(k, v)]"
| "set_property k v ((k', v') # ps) =
     (if k = k' then (k, v) # ps else (k', v') # set_property k v ps)"

text \<open>
  The own enumerable properties that the spread \<open>...requestHeaders\<close> copies: the members
  of an object, the elements of an array and the code units of a string under their
  indices, nothing for the other values.
\<close>

fun own_properties :: "jsvalue \<Rightarrow> properties" where
  "own_properties (Object ps) = ps"
| "own_properties (Array vs) = zip (map decimal [0..<length vs]) vs"
| "own_properties (String s) = zip (map decimal [0..<length s]) (map (\<lambda>c. String [c]) s)"
| "own_properties v = []"

text \<open>
  The order of the properties of an object: first those whose key is an array index (the
  decimal numeral, without leading zeros, of a number below \<open>2\<^sup>3\<^sup>2 - 1\<close>) in ascending
  numeric order, then the other keys in the order of their creation.
\<close>

definition array_index :: "jsstring \<Rightarrow> int option" where
  "array_index k =
     (if k \<noteq> [] \<and> list_all (\<lambda>c. 0x30 \<le> c \<and> c \<le> 0x39) k \<and> (length k = 1 \<or> hd k \<noteq> 0x30)
      then
        (let n = foldl (\<lambda>a c. 10 * a + (uint c - 0x30)) 0 k in
         if n < 4294967295 then Some n else None)
      else None)"

text \<open>Creating a property that the object does not have yet.\<close>

fun create_property :: "jsstring \<Rightarrow> jsvalue \<Rightarrow> properties \<Rightarrow> properties" where
  "create_property k v [] = [(k, v)]"
| "create_property k v ((k', v') # ps) =
     (case array_index k of
        None \<Rightarrow> (k', v') # create_property k v ps
      | Some n \<Rightarrow>
          (case array_index k' of
             None \<Rightarrow> (k, v) # (k', v') # ps
           | Some m \<Rightarrow>
               if n < m then (k, v) # (k', v') # ps else (k', v') # create_property k v ps))"

text \<open>
  Writing a property in an object literal: an existing key keeps its place and takes the
  new value, a new key is created.
\<close>

definition put_property :: "jsstring \<Rightarrow> jsvalue \<Rightarrow> properties \<Rightarrow> properties" where
  "put_property k v ps =
     (if map_of ps k = None then create_property k v ps
      else map (\<lambda>(k', v'). if k' = k then (k', v) else (k', v')) ps)"

definition spread :: "properties \<Rightarrow> jsvalue \<Rightarrow> properties" where
  "spread ps v = fold (\<lambda>(k, x). put_property k x) (own_properties v) ps"

text \<open>
  The exceptions that reach the \<open>catch\<close> of a handler, each with its \<open>message\<close>:
  \<open>URIError\<close> from the two URI built-ins, the \<open>TypeError\<close> of an assignment to a
  \<open>const\<close> binding, the \<open>Error\<close> the handlers throw themselves, and whatever \<open>fetch\<close> or
  \<open>response.text()\<close> reject with (network failure, timeout, a URL the client refuses).
\<close>

datatype js_error =
    URIError
  | TypeError
  | Error jsstring
  | FetchError jsstring

fun message :: "js_error \<Rightarrow> jsstring" where
  "message URIError = js ''URI malformed''"
| "message TypeError = js ''Assignment to constant variable.''"
| "message (Error m) = m"
| "message (FetchError m) = m"

text \<open>
  The upstream response as the handlers use it: \<open>response.status\<close>,
  \<open>response.statusText\<close>, \<open>response.headers\<close> (names in lower case, read with
  \<open>headers.get\<close>), what \<open>await response.text()\<close> gives and the bytes that
  \<open>response.body\<close> delivers.
\<close>

record upstream_response =
  status :: nat
  statusText :: jsstring
  headers :: "(jsstring \<times> jsstring) list"
  response_text :: "js_error + jsstring"
  body :: "8 word list"

definition ok :: "upstream_response \<Rightarrow> bool" where
  "ok response = (200 \<le> status response \<and> status response < 300)"

definition headers_get :: "upstream_response \<Rightarrow> jsstring \<Rightarrow> jsstring option" where
  "headers_get response name = map_of (headers response) name"

datatype fetch_result = Rejected js_error | Resolved upstream_response

text \<open>
  What a handler is given from outside: \<open>fetch\<close> (the \<open>node-fetch\<close> client, called with a
  URL and a header object) and \<open>JSON.parse\<close> (\<open>None\<close> when it throws \<open>SyntaxError\<close>).
\<close>

record env =
  fetch :: "jsstring \<Rightarrow> properties \<Rightarrow> fetch_result"
  JSON_parse :: "jsstring \<Rightarrow> jsvalue option"

text \<open>
  The inbound request: \<open>req.query.url\<close>, \<open>req.query.headers\<close> (each absent or a string),
  \<open>req.protocol\<close> (\<open>http\<close> or \<open>https\<close>; the application does not enable
  \<open>trust proxy\<close>), \<open>req.get('host')\<close> (\<open>undefined\<close> without a \<open>Host\<close> header) and
  \<open>req.headers.range\<close>.
\<close>

datatype protocol = Http | Https

record request =
  query_url :: "jsstring option"
  query_headers :: "jsstring option"
  protocol :: protocol
  host :: "jsstring option"
  headers_range :: "jsstring option"

text \<open>
  The response a handler sends: the status (200 unless \<open>res.status\<close> is called), the
  headers given to \<open>res.set\<close>, and the body given to \<open>res.json\<close>, \<open>res.send\<close> or piped
  into \<open>res\<close>. A header is recorded with the value the handler passes (\<open>null\<close> for a
  missing upstream \<open>Content-Length\<close>); what the \<open>cors\<close> middleware adds to every
  response and what the handlers write to the console are left out.
\<close>

datatype res_body =
    Json "(jsstring \<times> jsstring) list"
  | Text jsstring
  | Piped "8 word list"

record res =
  res_status :: nat
  res_headers :: properties
  res_body :: res_body

text \<open>
  The outcome of a request: the response, and the calls of \<open>fetch\<close> made on the way
  with their arguments.
\<close>

type_synonym outcome = "res \<times> (jsstring \<times> properties) list"

text \<open>A string in a condition is true when it is present and not empty.\<close>

fun truthy :: "jsstring option \<Rightarrow> bool" where
  "truthy None = False"
| "truthy (Some s) = (s \<noteq> [])"

text \<open>A string or \<open>undefined\<close> inside a template literal.\<close>

fun template :: "jsstring option \<Rightarrow> jsstring" where
  "template None = js ''undefined''"
| "template (Some s) = s"

fun protocol_name :: "protocol \<Rightarrow> jsstring" where
  "protocol_name Http = js ''http''"
| "protocol_name Https = js ''https''"

section \<open>The header object of the outbound request\<close>

text \<open>
  \<open>requestHeaders\<close>: empty unless \<open>headers\<close> is given; a failure of
  \<open>decodeURIComponent\<close> or \<open>JSON.parse\<close> is caught on the spot and leaves it empty.
\<close>

definition requestHeaders :: "env \<Rightarrow> jsstring option \<Rightarrow> jsvalue" where
  "requestHeaders e hs =
     (if truthy hs then
        (case decodeURIComponent (the hs) of
           None \<Rightarrow> Object []
         | Some d \<Rightarrow> (case JSON_parse e d of None \<Rightarrow> Object [] | Some v \<Rightarrow> v))
      else Object [])"

definition userAgent :: jsstring where
  "userAgent = js (''Mozilla/5.0 (Windows NT 10.0; Win64; x64) AppleWebKit/537.36 '' @
     ''(KHTML, like Gecko) Chrome/91.0.4472.124 Safari/537.36'')"

definition m3u8_defaults :: properties where
  "m3u8_defaults =
     [(js ''User-Agent'', String userAgent),
      (js ''Accept'', String (js ''*/*'')),
      (js ''Accept-Language'', String (js ''en-US,en;q=0.9'')),
      (js ''Accept-Encoding'', String (js ''gzip, deflate, br'')),
      (js ''Connection'', String (js ''keep-alive'')),
      (js ''Upgrade-Insecure-Requests'', String (js ''1''))]"

text \<open>\<open>req.headers.range || undefined\<close>.\<close>

definition range_or_undefined :: "jsstring option \<Rightarrow> jsvalue" where
  "range_or_undefined r = (if truthy r then String (the r) else Undefined)"

definition ts_defaults :: "jsstring option \<Rightarrow> properties" where
  "ts_defaults r =
     [(js ''User-Agent'', String userAgent),
      (js ''Accept'', String (js ''*/*'')),
      (js ''Accept-Language'', String (js ''en-US,en;q=0.9'')),
      (js ''Accept-Encoding'', String (js ''gzip, deflate, br'')),
      (js ''Connection'', String (js ''keep-alive'')),
      (js ''Range'', range_or_undefined r)]"

section \<open>The rewrite of the playlist\<close>

text \<open>
  \<open>content.replace(/^(?!#)(.+\.ts.*)$/gm, callback)\<close>. With the flag \<open>m\<close>, \<open>^\<close> and
  \<open>$\<close> match at the start and the end of a line, and \<open>.\<close> matches every code unit
  but a line terminator, so a match is always a whole line: one that does not start with
  \<open>#\<close> and has \<open>.ts\<close> after at least one code unit (\<open>.+\<close>). With the flag \<open>g\<close> every
  such line is replaced, in order, by what the callback returns for it; an exception of
  the callback ends the replacement.
\<close>

definition ts_line :: "jsstring \<Rightarrow> bool" where
  "ts_line l = (case l of [] \<Rightarrow> False | c # cs \<Rightarrow> c \<noteq> 0x23 \<and> contains cs (js ''.ts''))"

function replace_ts_lines ::
  "(jsstring \<Rightarrow> js_error + jsstring) \<Rightarrow> jsstring \<Rightarrow> js_error + jsstring" where
  "replace_ts_lines callback content =
     (let l = takeWhile (\<lambda>c. \<not> isLineTerminator c) content;
          rest = dropWhile (\<lambda>c. \<not> isLineTerminator c) content in
      case (if ts_line l then callback l else Inr l) of
        Inl e \<Rightarrow> Inl e
      | Inr l' \<Rightarrow>
          (case rest of
             [] \<Rightarrow> Inr l'
           | t # content' \<Rightarrow>
               (case replace_ts_lines callback content' of
                  Inl e \<Rightarrow> Inl e
                | Inr r \<Rightarrow> Inr (l' @ t # r))))"
  by pat_completeness auto
termination
proof (relation "measure (\<lambda>(callback, content). length content)")
  show "wf (measure (\<lambda>(callback :: jsstring \<Rightarrow> js_error + jsstring, content :: jsstring).
    length content))"
    by simp
next
  fix callback :: "jsstring \<Rightarrow> js_error + jsstring"
  fix content :: jsstring and rest t content'
  assume "rest = dropWhile (\<lambda>c. \<not> isLineTerminator c) content" and "rest = t # content'"
  then have "length (t # content') \<le> length content"
    using length_dropWhile_le [of "\<lambda>c. \<not> isLineTerminator c" content] by simp
  then show "((callback, content'), (callback, content))
      \<in> measure (\<lambda>(callback, content). length content)"
    by simp
qed

text \<open>
  The callback of the source, for the line \<open>tsFile\<close>:
  \<^verbatim>\<open>
  let tsUrl = tsFile.trim();
  if (!tsUrl.startsWith('http')) { tsUrl = baseUrl + tsUrl; }
  const proxyUrl = `/ts-proxy?url=${encodeURIComponent(tsUrl)}`;
  if (headers) { proxyUrl += `&headers=${encodeURIComponent(headers)}`; }
  return `${req.protocol}://${req.get('host')}${proxyUrl}`;
  \<close>
  \<open>proxyUrl\<close> is declared \<open>const\<close>: the assignment \<open>+=\<close> evaluates its right-hand side
  and then throws \<open>TypeError\<close>.
\<close>

definition resolve :: "jsstring \<Rightarrow> jsstring \<Rightarrow> jsstring" where
  "resolve baseUrl tsFile =
     (let tsUrl = trim tsFile in
      if \<not> startsWith tsUrl (js ''http'') then baseUrl @ tsUrl else tsUrl)"

definition origin :: "request \<Rightarrow> jsstring" where
  "origin req = protocol_name (protocol req) @ js ''://'' @ template (host req)"

definition rewrite_callback ::
  "request \<Rightarrow> jsstring \<Rightarrow> jsstring \<Rightarrow> js_error + jsstring" where
  "rewrite_callback req baseUrl tsFile =
     (let tsUrl = resolve baseUrl tsFile in
      case encodeURIComponent tsUrl of
        None \<Rightarrow> Inl URIError
      | Some u \<Rightarrow>
          let proxyUrl = js ''/ts-proxy?url='' @ u in
          if truthy (query_headers req) then
            (case encodeURIComponent (the (query_headers req)) of
               None \<Rightarrow> Inl URIError
             | Some h \<Rightarrow> Inl TypeError)
          else Inr (origin req @ proxyUrl))"

section \<open>The handlers\<close>

text \<open>The reply to a request without \<open>url\<close>, and the replies of the two \<open>catch\<close> blocks.\<close>

definition url_required :: res where
  "url_required =
     \<lparr>res_status = 400, res_headers = [],
      res_body = Json [(js ''error'', js ''URL parameter is required'')]\<rparr>"

definition m3u8_failed :: "js_error \<Rightarrow> res" where
  "m3u8_failed error =
     \<lparr>res_status = 500, res_headers = [],
      res_body = Json [(js ''error'', js ''Failed to fetch M3U8''),
                       (js ''details'', message error)]\<rparr>"

definition ts_failed :: "js_error \<Rightarrow> res" where
  "ts_failed error =
     \<lparr>res_status = 500, res_headers = [],
      res_body = Json [(js ''error'', js ''Failed to fetch TS file''),
                       (js ''details'', message error)]\<rparr>"

text \<open>\<open>new Error(`HTTP ${response.status}: ${response.statusText}`)\<close>.\<close>

definition http_error :: "upstream_response \<Rightarrow> js_error" where
  "http_error response =
     Error (js ''HTTP '' @ decimal (status response) @ js '': '' @ statusText response)"

definition m3u8_headers :: properties where
  "m3u8_headers =
     [(js ''Content-Type'', String (js ''application/vnd.apple.mpegurl'')),
      (js ''Access-Control-Allow-Origin'', String (js ''*'')),
      (js ''Access-Control-Allow-Methods'', String (js ''GET, POST, OPTIONS'')),
      (js ''Access-Control-Allow-Headers'',
         String (js ''Content-Type, Authorization, Referer, User-Agent'')),
      (js ''Cache-Control'', String (js ''no-cache''))]"

text \<open>\<open>app.get('/m3u8-proxy', ...)\<close>.\<close>

definition m3u8_proxy :: "env \<Rightarrow> request \<Rightarrow> outcome" where
  "m3u8_proxy e req =
     (if \<not> truthy (query_url req) then (url_required, [])
      else
        (case decodeURIComponent (the (query_url req)) of
           None \<Rightarrow> (m3u8_failed URIError, [])
         | Some decodedUrl \<Rightarrow>
             let defaultHeaders = spread m3u8_defaults (requestHeaders e (query_headers req));
                 fetches = [(decodedUrl, defaultHeaders)] in
             (case fetch e decodedUrl defaultHeaders of
                Rejected error \<Rightarrow> (m3u8_failed error, fetches)
              | Resolved response \<Rightarrow>
                  if \<not> ok response then (m3u8_failed (http_error response), fetches)
                  else
                    (case response_text response of
                       Inl error \<Rightarrow> (m3u8_failed error, fetches)
                     | Inr content \<Rightarrow>
                         let baseUrl = upto_last_slash decodedUrl in
                         (case replace_ts_lines (rewrite_callback req baseUrl) content of
                            Inl error \<Rightarrow> (m3u8_failed error, fetches)
                          | Inr content' \<Rightarrow>
                              (\<lparr>res_status = 200, res_headers = m3u8_headers,
                                res_body = Text content'\<rparr>, fetches))))))"

text \<open>
  The headers of a relayed segment: \<open>headers.get\<close> gives \<open>null\<close> for a header the
  upstream response does not have, and \<open>||\<close> takes its right operand for \<open>null\<close> and
  for the empty string.
\<close>

fun or_else :: "jsstring option \<Rightarrow> jsstring \<Rightarrow> jsstring" where
  "or_else v d = (if truthy v then the v else d)"

fun string_or_null :: "jsstring option \<Rightarrow> jsvalue" where
  "string_or_null None = Null"
| "string_or_null (Some s) = String s"

definition ts_headers :: "upstream_response \<Rightarrow> properties" where
  "ts_headers response =
     [(js ''Content-Type'',
         String (or_else (headers_get response (js ''content-type'')) (js ''video/mp2t''))),
      (js ''Content-Length'', string_or_null (headers_get response (js ''content-length''))),
      (js ''Accept-Ranges'', String (js ''bytes'')),
      (js ''Access-Control-Allow-Origin'', String (js ''*'')),
      (js ''Access-Control-Allow-Methods'', String (js ''GET, POST, OPTIONS'')),
      (js ''Access-Control-Allow-Headers'',
         String (js ''Content-Type, Authorization, Referer, User-Agent, Range'')),
      (js ''Cache-Control'', String (js ''public, max-age=3600''))]"

text \<open>\<open>app.get('/ts-proxy', ...)\<close>.\<close>

definition ts_proxy :: "env \<Rightarrow> request \<Rightarrow> outcome" where
  "ts_proxy e req =
     (if \<not> truthy (query_url req) then (url_required, [])
      else
        (case decodeURIComponent (the (query_url req)) of
           None \<Rightarrow> (ts_failed URIError, [])
         | Some decodedUrl \<Rightarrow>
             let defaultHeaders =
                   spread (ts_defaults (headers_range req)) (requestHeaders e (query_headers req));
                 fetches = [(decodedUrl, defaultHeaders)] in
             (case fetch e decodedUrl defaultHeaders of
                Rejected error \<Rightarrow> (ts_failed error, fetches)
              | Resolved response \<Rightarrow>
                  if \<not> ok response then (ts_failed (http_error response), fetches)
                  else if truthy (headers_get response (js ''content-range'')) then
                    (\<lparr>res_status = 206,
                      res_headers =
                        set_property (js ''Content-Range'')
                          (String (the (headers_get response (js ''content-range''))))
                          (ts_headers response),
                      res_body = Piped (body response)\<rparr>, fetches)
                  else
                    (\<lparr>res_status = 200, res_headers = ts_headers response,
                      res_body = Piped (body response)\<rparr>, fetches))))"

section \<open>The HTTP client\<close>

text \<open>
  Modelled from the spec: the client behind \<open>fetch\<close>, the package \<open>node-fetch\<close> that the
  source requires and that is not under \<open>src/\<close>. The specification asks that no upstream
  fetch is attempted for a target that does not parse as an absolute URI. The client
  parses the URL before anything else: when that fails it rejects and sends nothing, and
  otherwise it sends the GET and resolves or rejects with what comes of it. What parses as
  an absolute URI and what the upstream answers are parameters.
\<close>

definition node_fetch ::
  "(jsstring \<Rightarrow> bool) \<Rightarrow> (jsstring \<Rightarrow> properties \<Rightarrow> fetch_result) \<Rightarrow>
     jsstring \<Rightarrow> properties \<Rightarrow> fetch_result" where
  "node_fetch absolute_uri upstream url hs =
     (if absolute_uri url then upstream url hs
      else Rejected (FetchError (js ''Only absolute URLs are supported'')))"

text \<open>
  Modelled from the spec: the GETs that go out for a request, which are the calls of
  \<open>fetch\<close> with a URL that this client accepts.
\<close>

definition outbound_GETs :: "(jsstring \<Rightarrow> bool) \<Rightarrow> outcome \<Rightarrow> (jsstring \<times> properties) list" where
  "outbound_GETs absolute_uri out = filter (\<lambda>(url, hs). absolute_uri url) (snd out)"

section \<open>Lines and well-formed text\<close>

text \<open>
  The lines of a text, as \<open>^\<close> and \<open>$\<close> delimit them under the flag \<open>m\<close>: the
  maximal runs without a line terminator. A text with \<open>n\<close> line terminators has
  \<open>n + 1\<close> lines, some of them possibly empty.
\<close>

function split_lines :: "jsstring \<Rightarrow> jsstring list" where
  "split_lines content =
     (let l = takeWhile (\<lambda>c. \<not> isLineTerminator c) content;
          rest = dropWhile (\<lambda>c. \<not> isLineTerminator c) content in
      case rest of
        [] \<Rightarrow> [l]
      | t # content' \<Rightarrow> l # split_lines content')"
  by pat_completeness auto
termination
proof (relation "measure length")
  show "wf (measure (length :: jsstring \<Rightarrow> nat))"
    by simp
next
  fix content :: jsstring and rest t content'
  assume "rest = dropWhile (\<lambda>c. \<not> isLineTerminator c) content" and "rest = t # content'"
  then have "length (t # content') \<le> length content"
    using length_dropWhile_le [of "\<lambda>c. \<not> isLineTerminator c" content] by simp
  then show "(content', content) \<in> measure length"
    by simp
qed

text \<open>
  What the replacement does with one line: \<open>l'\<close> is what stands in the place of the
  line \<open>l\<close> when no exception was thrown.
\<close>

definition replaced_line ::
  "(jsstring \<Rightarrow> js_error + jsstring) \<Rightarrow> jsstring \<Rightarrow> jsstring \<Rightarrow> bool" where
  "replaced_line callback l l' = ((if ts_line l then callback l else Inr l) = Inr l')"

text \<open>
  A segment reference in the words of the specification: a line that does not start with
  \<open>#\<close> and contains \<open>.ts\<close>.
\<close>

definition segment_reference :: "jsstring \<Rightarrow> bool" where
  "segment_reference l = (\<not> startsWith l (js ''#'') \<and> contains l (js ''.ts''))"

text \<open>
  Well-formed UTF-16: every surrogate is part of a pair of a high and a low one. The text
  that \<open>response.text()\<close> decodes from UTF-8 is always well formed, and so is a string
  that \<open>decodeURIComponent\<close> produced from escapes.
\<close>

fun well_formed :: "jsstring \<Rightarrow> bool" where
  "well_formed [] = True"
| "well_formed (c # cs) =
     (if isHighSurrogate c then
        (case cs of [] \<Rightarrow> False | d # ds \<Rightarrow> isLowSurrogate d \<and> well_formed ds)
      else \<not> isLowSurrogate c \<and> well_formed cs)"

section \<open>Example requests and upstream responses\<close>

text \<open>
  A playlist of five lines at \<open>http://cdn.example/a/index.m3u8\<close>, with one relative and
  one absolute segment reference, asked for through \<open>http://relay.example\<close>.
\<close>

definition scenario_playlist :: jsstring where
  "scenario_playlist =
     js ''#EXTM3U'' @ [0x0A] @ js ''#EXTINF:10.0,'' @ [0x0A] @ js ''seg0.ts'' @ [0x0A] @
     js ''#EXTINF:10.0,'' @ [0x0A] @ js ''http://other.cdn/seg1.ts''"

definition upstream_playlist :: "jsstring \<Rightarrow> upstream_response" where
  "upstream_playlist content =
     \<lparr>status = 200, statusText = js ''OK'', headers = [], response_text = Inr content,
      body = []\<rparr>"

definition partial_segment :: upstream_response where
  "partial_segment =
     \<lparr>status = 206, statusText = js ''Partial Content'',
      headers = [(js ''content-type'', js ''video/mp2t''), (js ''content-length'', js ''1000''),
                 (js ''content-range'', js ''bytes 0-999/5000'')],
      response_text = Inr [], body = [0x47, 0x40, 0x00]\<rparr>"

definition empty_content_range :: upstream_response where
  "empty_content_range =
     \<lparr>status = 200, statusText = js ''OK'',
      headers = [(js ''content-type'', js ''video/mp2t''), (js ''content-range'', [])],
      response_text = Inr [], body = [0x47]\<rparr>"

definition not_found :: upstream_response where
  "not_found =
     \<lparr>status = 404, statusText = js ''Not Found'', headers = [],
      response_text = Inr (js ''no such segment''), body = [0x6E, 0x6F]\<rparr>"

text \<open>An upstream that answers every request with the same response.\<close>

definition serving :: "upstream_response \<Rightarrow> env" where
  "serving response =
     \<lparr>fetch = (\<lambda>url hs. Resolved response),
      JSON_parse = (\<lambda>s. if s = js ''{}'' then Some (Object []) else None)\<rparr>"

definition scenario_request :: request where
  "scenario_request =
     \<lparr>query_url = Some (js ''http%3A%2F%2Fcdn.example%2Fa%2Findex.m3u8''),
      query_headers = None, protocol = Http, host = Some (js ''relay.example''),
      headers_range = None\<rparr>"

text \<open>What the relay answers for the playlist above.\<close>

definition rewritten_playlist :: jsstring where
  "rewritten_playlist =
     js ''#EXTM3U'' @ [0x0A] @ js ''#EXTINF:10.0,'' @ [0x0A] @
     js ''http://relay.example/ts-proxy?url=http%3A%2F%2Fcdn.example%2Fa%2Fseg0.ts'' @ [0x0A] @
     js ''#EXTINF:10.0,'' @ [0x0A] @
     js ''http://relay.example/ts-proxy?url=http%3A%2F%2Fother.cdn%2Fseg1.ts''"

text \<open>A test for an absolute URL: the text starts with \<open>http://\<close> or \<open>https://\<close>.\<close>

definition http_url :: "jsstring \<Rightarrow> bool" where
  "http_url url = (startsWith url (js ''http://'') \<or> startsWith url (js ''https://''))"

section \<open>The URI built-ins are inverse to each other\<close>

text \<open>
  Both recursions over the text are unfolded by hand, one line at a time, so their defining
  equations are not rewrite rules.
\<close>

declare split_lines.simps [simp del] replace_ts_lines.simps [simp del]

text \<open>
  An escape \<open>%XY\<close> written by \<open>encodeURIComponent\<close> is read back as the octet it was
  written for, and the octets of a code point as that code point.
\<close>

lemma upt_16: "[0..<16] = [0, 1, 2, 3, 4, 5, 6, 7, 8, 9, 10, 11, 12, 13, 14, 15::nat]"
  by code_simp

lemma less_16_cases: "d < 16 \<Longrightarrow> d = 0 \<or> d = 1 \<or> d = 2 \<or> d = 3 \<or> d = 4 \<or> d = 5 \<or> d = 6 \<or> d = 7 \<or>
      d = 8 \<or> d = 9 \<or> d = 10 \<or> d = 11 \<or> d = 12 \<or> d = 13 \<or> d = 14 \<or> d = (15::nat)"
proof -
  assume "d < 16"
  then have "d \<in> set [0..<16]" by simp
  then show ?thesis unfolding upt_16 by simp
qed

lemma hexValue_hexDigit_each: "hexValue (hexDigit 0) = Some 0" "hexValue (hexDigit 1) = Some 1"
  "hexValue (hexDigit 2) = Some 2" "hexValue (hexDigit 3) = Some 3"
  "hexValue (hexDigit 4) = Some 4" "hexValue (hexDigit 5) = Some 5"
  "hexValue (hexDigit 6) = Some 6" "hexValue (hexDigit 7) = Some 7"
  "hexValue (hexDigit 8) = Some 8" "hexValue (hexDigit 9) = Some 9"
  "hexValue (hexDigit 10) = Some 10" "hexValue (hexDigit 11) = Some 11"
  "hexValue (hexDigit 12) = Some 12" "hexValue (hexDigit 13) = Some 13"
  "hexValue (hexDigit 14) = Some 14" "hexValue (hexDigit 15) = Some 15"
  by (simp_all add: hexDigit_def hexValue_def)

lemma hexValue_hexDigit: "d < 16 \<Longrightarrow> hexValue (hexDigit d) = Some d"
  using hexValue_hexDigit_each by (auto dest!: less_16_cases)

lemma ParseHexOctet_escape:
  assumes "b < 256"
  shows "ParseHexOctet (hexDigit (b div 16) # hexDigit (b mod 16) # rest) = Some b"
proof -
  from assms have "b div 16 < 16" by simp
  then show ?thesis
    by (simp add: hexValue_hexDigit)
qed

lemma continuationOctets_escapeOctets:
  assumes "\<forall>b \<in> set bs. b < 256"
  shows "continuationOctets (length bs) (escapeOctets bs @ rest) = Some bs"
  using assms
proof (induction bs)
  case Nil
  then show ?case by (simp add: escapeOctets_def)
next
  case (Cons b bs)
  then have "continuationOctets (length bs) (escapeOctets bs @ rest) = Some bs"
    by simp
  with Cons.prems show ?case
    by (simp add: escapeOctets_def escapeOctet_def ParseHexOctet_escape
        del: ParseHexOctet.simps)
qed

lemma length_escapeOctets: "length (escapeOctets bs) = 3 * length bs"
  by (induction bs) (simp_all add: escapeOctets_def escapeOctet_def)

lemma drop_escapeOctets: "drop (3 * length bs) (escapeOctets bs @ rest) = rest"
  by (simp add: length_escapeOctets)

lemma div_4096: "cp div 4096 = cp div 64 div (64::nat)"
  using div_mult2_eq [of cp 64 64] by simp

lemma div_262144: "cp div 262144 = cp div 64 div 64 div (64::nat)"
  using div_mult2_eq [of cp 4096 64] by (simp add: div_4096)

lemma sextets_2: "(cp div 64) * 64 + cp mod 64 = (cp::nat)"
  by simp

lemma join_3:
  fixes cp x y r0 r1 :: nat
  assumes "cp = x * 64 + r0" and "x = y * 64 + r1"
  shows "y * 4096 + r1 * 64 + r0 = cp"
  using assms by simp

lemma join_4:
  fixes cp x y z r0 r1 r2 :: nat
  assumes "cp = x * 64 + r0" and "x = y * 64 + r1" and "y = z * 64 + r2"
  shows "z * 262144 + r2 * 4096 + r1 * 64 + r0 = cp"
  using assms by simp

lemma sextets_3: "(cp div 4096) * 4096 + (cp div 64 mod 64) * 64 + cp mod 64 = (cp::nat)"
  unfolding div_4096
  by (rule join_3 [of cp "cp div 64" "cp mod 64" "cp div 64 div 64" "cp div 64 mod 64"])
    simp_all

lemma sextets_4:
  "(cp div 262144) * 262144 + (cp div 4096 mod 64) * 4096 + (cp div 64 mod 64) * 64 + cp mod 64
     = (cp::nat)"
  unfolding div_262144 div_4096
  by (rule join_4 [of cp "cp div 64" "cp mod 64" "cp div 64 div 64" "cp div 64 mod 64"
        "cp div 64 div 64 div 64" "cp div 64 div 64 mod 64"])
    simp_all

lemma utf8_octets_2:
  assumes "0x80 \<le> cp" "cp < 0x800"
  shows "utf8_octets cp = [0xC0 + cp div 0x40, 0x80 + cp mod 0x40]"
    and "0xC0 + cp div 0x40 < 256"
    and "leadingOnes (0xC0 + cp div 0x40) = 2"
    and "utf8_codepoint [0xC0 + cp div 0x40, 0x80 + cp mod 0x40] = Some cp"
proof -
  show "utf8_octets cp = [0xC0 + cp div 0x40, 0x80 + cp mod 0x40]"
    using assms by (simp add: utf8_octets_def)
  have "cp div 0x40 < 0x20"
    using assms by (simp add: less_mult_imp_div_less)
  then show "0xC0 + cp div 0x40 < 256"
    by simp
  show "leadingOnes (0xC0 + cp div 0x40) = 2"
    using assms by (simp add: leadingOnes_def)
  have "(0xC0 + cp div 0x40 - 0xC0) * 0x40 + (0x80 + cp mod 0x40 - 0x80) = cp"
    using sextets_2 [of cp] by simp
  moreover have "isContinuation (0x80 + cp mod 0x40)"
    by (simp add: isContinuation_def)
  ultimately show "utf8_codepoint [0xC0 + cp div 0x40, 0x80 + cp mod 0x40] = Some cp"
    using assms by (simp del: add_diff_cancel_left' add_diff_cancel_left)
qed

lemma utf8_octets_3:
  assumes "0x800 \<le> cp" "cp < 0x10000" "\<not> (0xD800 \<le> cp \<and> cp \<le> 0xDFFF)"
  shows "utf8_octets cp =
           [0xE0 + cp div 0x1000, 0x80 + (cp div 0x40) mod 0x40, 0x80 + cp mod 0x40]"
    and "0xE0 + cp div 0x1000 < 256"
    and "leadingOnes (0xE0 + cp div 0x1000) = 3"
    and "utf8_codepoint
           [0xE0 + cp div 0x1000, 0x80 + (cp div 0x40) mod 0x40, 0x80 + cp mod 0x40] = Some cp"
proof -
  show "utf8_octets cp =
          [0xE0 + cp div 0x1000, 0x80 + (cp div 0x40) mod 0x40, 0x80 + cp mod 0x40]"
    using assms by (simp add: utf8_octets_def)
  have "cp div 0x1000 < 0x10"
    using assms by (simp add: less_mult_imp_div_less)
  then show "0xE0 + cp div 0x1000 < 256"
    by simp
  show "leadingOnes (0xE0 + cp div 0x1000) = 3"
    using assms by (simp add: leadingOnes_def)
  have "(0xE0 + cp div 0x1000 - 0xE0) * 0x1000 + (0x80 + (cp div 0x40) mod 0x40 - 0x80) * 0x40
      + (0x80 + cp mod 0x40 - 0x80) = cp"
    using sextets_3 [of cp] by simp
  moreover have "isContinuation (0x80 + (cp div 0x40) mod 0x40)"
    "isContinuation (0x80 + cp mod 0x40)"
    by (simp_all add: isContinuation_def)
  ultimately show "utf8_codepoint
      [0xE0 + cp div 0x1000, 0x80 + (cp div 0x40) mod 0x40, 0x80 + cp mod 0x40] = Some cp"
    using assms by (simp del: add_diff_cancel_left' add_diff_cancel_left)
qed

lemma utf8_octets_4:
  assumes "0x10000 \<le> cp" "cp < 0x110000"
  shows "utf8_octets cp =
           [0xF0 + cp div 0x40000, 0x80 + (cp div 0x1000) mod 0x40,
            0x80 + (cp div 0x40) mod 0x40, 0x80 + cp mod 0x40]"
    and "0xF0 + cp div 0x40000 < 256"
    and "leadingOnes (0xF0 + cp div 0x40000) = 4"
    and "utf8_codepoint
           [0xF0 + cp div 0x40000, 0x80 + (cp div 0x1000) mod 0x40,
            0x80 + (cp div 0x40) mod 0x40, 0x80 + cp mod 0x40] = Some cp"
proof -
  show "utf8_octets cp =
           [0xF0 + cp div 0x40000, 0x80 + (cp div 0x1000) mod 0x40,
            0x80 + (cp div 0x40) mod 0x40, 0x80 + cp mod 0x40]"
    using assms by (simp add: utf8_octets_def)
  have small: "cp div 0x40000 < 0x5"
    using assms by (simp add: less_mult_imp_div_less)
  then show "0xF0 + cp div 0x40000 < 256"
    by simp
  show "leadingOnes (0xF0 + cp div 0x40000) = 4"
    using small by (simp add: leadingOnes_def)
  have "(0xF0 + cp div 0x40000 - 0xF0) * 0x40000 + (0x80 + (cp div 0x1000) mod 0x40 - 0x80) * 0x1000
      + (0x80 + (cp div 0x40) mod 0x40 - 0x80) * 0x40 + (0x80 + cp mod 0x40 - 0x80) = cp"
    using sextets_4 [of cp] by simp
  moreover have "isContinuation (0x80 + (cp div 0x1000) mod 0x40)"
    "isContinuation (0x80 + (cp div 0x40) mod 0x40)"
    "isContinuation (0x80 + cp mod 0x40)"
    by (simp_all add: isContinuation_def)
  ultimately show "utf8_codepoint
           [0xF0 + cp div 0x40000, 0x80 + (cp div 0x1000) mod 0x40,
            0x80 + (cp div 0x40) mod 0x40, 0x80 + cp mod 0x40] = Some cp"
    using assms by (simp del: add_diff_cancel_left' add_diff_cancel_left)
qed

lemma decode_escape_ascii:
  assumes "b < 0x80"
  shows "decodeURIComponent (escapeOctets [b] @ rest) =
           map_option ((#) (of_nat b)) (decodeURIComponent rest)"
proof -
  from assms have "b < 256" by simp
  then have "ParseHexOctet (hexDigit (b div 16) # hexDigit (b mod 16) # rest) = Some b"
    by (rule ParseHexOctet_escape)
  moreover from assms have "leadingOnes b = 0"
    by (simp add: leadingOnes_def)
  ultimately show ?thesis
    by (simp add: escapeOctets_def escapeOctet_def del: ParseHexOctet.simps)
qed

lemma decode_escape_multi:
  assumes small: "\<forall>b \<in> set (b0 # bs). b < 256"
    and lead: "leadingOnes b0 = Suc (length bs)"
    and len: "1 \<le> length bs" "length bs \<le> 3"
    and cp: "utf8_codepoint (b0 # bs) = Some cp"
  shows "decodeURIComponent (escapeOctets (b0 # bs) @ rest) =
           map_option ((@) (UTF16EncodeCodePoint cp)) (decodeURIComponent rest)"
proof -
  let ?cs = "hexDigit (b0 div 16) # hexDigit (b0 mod 16) # escapeOctets bs @ rest"
  have whole: "escapeOctets (b0 # bs) @ rest = 0x25 # ?cs"
    by (simp add: escapeOctets_def escapeOctet_def)
  from small have "b0 < 256" by simp
  then have first: "ParseHexOctet ?cs = Some b0"
    by (rule ParseHexOctet_escape)
  from small have "\<forall>b \<in> set bs. b < 256" by simp
  then have more: "continuationOctets (length bs) (escapeOctets bs @ rest) = Some bs"
    by (rule continuationOctets_escapeOctets)
  have after: "drop (2 + 3 * length bs) ?cs = rest"
    by (simp add: length_escapeOctets)
  have two: "drop 2 ?cs = escapeOctets bs @ rest"
    by simp
  from len have "bs \<noteq> []"
    by auto
  then show ?thesis
    unfolding whole
    using first more after two lead len cp
    by (simp del: ParseHexOctet.simps drop_Suc_Cons utf8_codepoint.simps)
qed

lemma continuation_small: "0x80 + x mod 0x40 < (256::nat)"
  using mod_less_divisor [of 64 x] by linarith

lemma decode_escaped_code_point:
  assumes "cp < 0x110000" and "\<not> (0xD800 \<le> cp \<and> cp \<le> 0xDFFF)"
  shows "decodeURIComponent (escapeOctets (utf8_octets cp) @ rest) =
           map_option ((@) (UTF16EncodeCodePoint cp)) (decodeURIComponent rest)"
proof -
  consider "cp < 0x80" | "0x80 \<le> cp" "cp < 0x800" | "0x800 \<le> cp" "cp < 0x10000"
    | "0x10000 \<le> cp"
    by linarith
  then show ?thesis
  proof cases
    case 1
    then have "utf8_octets cp = [cp]" "UTF16EncodeCodePoint cp = [of_nat cp]"
      by (simp_all add: utf8_octets_def UTF16EncodeCodePoint_def)
    with 1 show ?thesis
      by (simp add: decode_escape_ascii option.map_comp comp_def cong: option.map_cong)
  next
    case 2
    note o = utf8_octets_2 [OF 2]
    show ?thesis
      unfolding o(1)
    proof (rule decode_escape_multi)
      show "\<forall>b\<in>set [0xC0 + cp div 0x40, 0x80 + cp mod 0x40]. b < 256"
        using o(2) continuation_small by simp
    qed (use o(3) in simp, simp, simp, rule o(4))
  next
    case 3
    note o = utf8_octets_3 [OF 3 assms(2)]
    show ?thesis
      unfolding o(1)
    proof (rule decode_escape_multi)
      show "\<forall>b\<in>set [0xE0 + cp div 0x1000, 0x80 + (cp div 0x40) mod 0x40,
          0x80 + cp mod 0x40]. b < 256"
        using o(2) continuation_small by simp
    qed (use o(3) in simp, simp, simp, rule o(4))
  next
    case 4
    note o = utf8_octets_4 [OF 4 assms(1)]
    show ?thesis
      unfolding o(1)
    proof (rule decode_escape_multi)
      show "\<forall>b\<in>set [0xF0 + cp div 0x40000, 0x80 + (cp div 0x1000) mod 0x40,
          0x80 + (cp div 0x40) mod 0x40, 0x80 + cp mod 0x40]. b < 256"
        using o(2) continuation_small by simp
    qed (use o(3) in simp, simp, simp, rule o(4))
  qed
qed

lemma unat_code_unit: "unat (c :: code_unit) < 65536"
  using unsigned_less [of c, where ?'a = nat] by simp

lemma of_nat_unat_code_unit: "of_nat (unat (c :: code_unit)) = c"
  by simp

lemma isHighSurrogate_unat: "isHighSurrogate c \<longleftrightarrow> 0xD800 \<le> unat c \<and> unat c \<le> 0xDBFF"
  by (simp add: isHighSurrogate_def word_le_nat_alt)

lemma isLowSurrogate_unat: "isLowSurrogate c \<longleftrightarrow> 0xDC00 \<le> unat c \<and> unat c \<le> 0xDFFF"
  by (simp add: isLowSurrogate_def word_le_nat_alt)

lemma uriUnescaped_not_percent: "uriUnescaped c \<Longrightarrow> c \<noteq> 0x25"
  by (auto simp: uriUnescaped_def)

lemma UTF16EncodeCodePoint_unit: "UTF16EncodeCodePoint (unat (c :: code_unit)) = [c]"
  using unat_code_unit [of c] by (simp add: UTF16EncodeCodePoint_def)

lemma pair_code_point:
  assumes "isHighSurrogate c" and "isLowSurrogate d"
  shows "0x10000 \<le> UTF16SurrogatePairToCodePoint c d"
    and "UTF16SurrogatePairToCodePoint c d < 0x110000"
    and "UTF16EncodeCodePoint (UTF16SurrogatePairToCodePoint c d) = [c, d]"
proof -
  define h where "h = unat c - 0xD800"
  define l where "l = unat d - 0xDC00"
  from assms have h: "h < 0x400" "h + 0xD800 = unat c"
    by (auto simp: h_def isHighSurrogate_unat)
  from assms have l: "l < 0x400" "l + 0xDC00 = unat d"
    by (auto simp: l_def isLowSurrogate_unat)
  have cp: "UTF16SurrogatePairToCodePoint c d = h * 0x400 + l + 0x10000"
    by (simp add: UTF16SurrogatePairToCodePoint_def h_def l_def)
  show "0x10000 \<le> UTF16SurrogatePairToCodePoint c d"
    by (simp add: cp)
  from h(1) have "h * 0x400 \<le> 0x3FF * 0x400"
    by simp
  with l(1) show "UTF16SurrogatePairToCodePoint c d < 0x110000"
    by (simp add: cp)
  have "(h * 0x400 + l) div 0x400 = h" "(h * 0x400 + l) mod 0x400 = l"
    using l(1) by simp_all
  then have "UTF16EncodeCodePoint (h * 0x400 + l + 0x10000) =
      [of_nat (h + 0xD800), of_nat (l + 0xDC00)]"
    by (simp add: UTF16EncodeCodePoint_def)
  then show "UTF16EncodeCodePoint (UTF16SurrogatePairToCodePoint c d) = [c, d]"
    by (simp only: cp h(2) l(2) of_nat_unat_code_unit)
qed

lemma decode_encode:
  "encodeURIComponent s = Some u \<Longrightarrow> decodeURIComponent u = Some s"
proof (induction s arbitrary: u rule: encodeURIComponent.induct)
  case 1
  then show ?case by simp
next
  case (2 c cs)
  show ?case
  proof (cases "uriUnescaped c")
    case True
    with "2.prems" obtain v where v: "encodeURIComponent cs = Some v" "u = c # v"
      by auto
    from "2.IH"(1) [OF True v(1)] True v(2) show ?thesis
      by (simp add: uriUnescaped_not_percent)
  next
    case False
    note unescaped = this
    show ?thesis
    proof (cases "isLowSurrogate c")
      case True
      with unescaped "2.prems" show ?thesis by simp
    next
      case False
      note low = this
      show ?thesis
      proof (cases "isHighSurrogate c")
        case True
        with unescaped low "2.prems" obtain d ds v where
          d: "cs = d # ds" "isLowSurrogate d" "encodeURIComponent ds = Some v"
            "u = escapeOctets (utf8_octets (UTF16SurrogatePairToCodePoint c d)) @ v"
          by (auto split: list.splits if_splits)
        note p = pair_code_point [OF True d(2)]
        from "2.IH"(2) [OF unescaped low True d(1) d(2) d(3)]
        have "decodeURIComponent v = Some ds" .
        moreover have "\<not> (0xD800 \<le> UTF16SurrogatePairToCodePoint c d \<and>
            UTF16SurrogatePairToCodePoint c d \<le> 0xDFFF)"
          using p(1) by simp
        ultimately show ?thesis
          unfolding d(4) d(1)
          by (simp add: decode_escaped_code_point [OF p(2)] p(3))
      next
        case False
        with unescaped low "2.prems" obtain v where
          v: "encodeURIComponent cs = Some v" "u = escapeOctets (utf8_octets (unat c)) @ v"
          by auto
        from "2.IH"(3) [OF unescaped low False v(1)]
        have "decodeURIComponent v = Some cs" .
        moreover have "unat c < 0x110000"
          using unat_code_unit [of c] by simp
        moreover have "\<not> (0xD800 \<le> unat c \<and> unat c \<le> 0xDFFF)"
          using low False by (auto simp: isLowSurrogate_unat isHighSurrogate_unat)
        ultimately show ?thesis
          unfolding v(2)
          by (simp add: decode_escaped_code_point UTF16EncodeCodePoint_unit)
      qed
    qed
  qed
qed

section \<open>Well-formed text can be encoded\<close>

text \<open>
  \<open>encodeURIComponent\<close> throws for nothing but a surrogate outside a pair, and it writes
  unescaped characters and \<open>%\<close> only.
\<close>


lemma uriUnescaped_small: "uriUnescaped c \<Longrightarrow> unat c < 128"
  by (auto simp: uriUnescaped_def word_le_nat_alt)

lemma small_not_surrogate: "unat c < 0xD800 \<Longrightarrow> \<not> isHighSurrogate c \<and> \<not> isLowSurrogate c"
  by (simp add: isHighSurrogate_unat isLowSurrogate_unat)

lemma well_formed_Cons_plain:
  "\<not> isHighSurrogate c \<Longrightarrow> \<not> isLowSurrogate c \<Longrightarrow> well_formed (c # cs) = well_formed cs"
  by simp

lemma well_formed_split:
  assumes "\<not> isLowSurrogate c"
  shows "well_formed (xs @ c # ys) = (well_formed xs \<and> well_formed (c # ys))"
  using assms
proof (induction xs rule: well_formed.induct)
  case 1
  then show ?case by simp
next
  case (2 x xs)
  show ?case
  proof (cases "isHighSurrogate x")
    case True
    show ?thesis
    proof (cases xs)
      case Nil
      with True "2.prems" show ?thesis by simp
    next
      case (Cons d ds)
      with True "2.IH"(1) [OF True Cons] "2.prems" show ?thesis
        by simp
    qed
  next
    case False
    with "2.IH"(2) [OF False] "2.prems" show ?thesis
      by simp
  qed
qed

lemma well_formed_append:
  "well_formed xs \<Longrightarrow> well_formed ys \<Longrightarrow> well_formed (xs @ ys)"
proof (induction xs rule: well_formed.induct)
  case 1
  then show ?case by simp
next
  case (2 x xs)
  then show ?case
    by (cases xs) (auto split: if_splits)
qed

lemma well_formed_plain: "\<forall>c \<in> set xs. \<not> isHighSurrogate c \<and> \<not> isLowSurrogate c \<Longrightarrow> well_formed xs"
  by (induction xs) simp_all

lemma well_formed_drop_plain:
  assumes "\<forall>c \<in> set xs. \<not> isHighSurrogate c \<and> \<not> isLowSurrogate c"
  shows "well_formed (xs @ ys) = well_formed ys"
  using assms by (induction xs) simp_all

lemma well_formed_butlast_plain:
  assumes "\<forall>c \<in> set ys. \<not> isHighSurrogate c \<and> \<not> isLowSurrogate c"
  shows "well_formed (xs @ ys) = well_formed xs"
proof (cases ys)
  case Nil
  then show ?thesis by simp
next
  case (Cons c cs)
  with assms have "\<not> isLowSurrogate c" "well_formed (c # cs)"
    by (simp_all add: well_formed_plain)
  then show ?thesis
    unfolding Cons by (simp add: well_formed_split)
qed

lemma encode_well_formed: "well_formed s \<Longrightarrow> \<exists>u. encodeURIComponent s = Some u"
proof (induction s rule: encodeURIComponent.induct)
  case 1
  then show ?case by simp
next
  case (2 c cs)
  show ?case
  proof (cases "uriUnescaped c")
    case True
    then have "\<not> isHighSurrogate c" "\<not> isLowSurrogate c"
      using small_not_surrogate [of c] uriUnescaped_small [of c] by simp_all
    with "2.prems" "2.IH"(1) [OF True] True show ?thesis
      by auto
  next
    case False
    note unescaped = this
    show ?thesis
    proof (cases "isHighSurrogate c")
      case True
      then have low: "\<not> isLowSurrogate c"
        by (auto simp: isHighSurrogate_unat isLowSurrogate_unat)
      from True "2.prems" obtain d ds where d: "cs = d # ds" "isLowSurrogate d" "well_formed ds"
        by (cases cs) auto
      from "2.IH"(2) [OF unescaped low True d(1) d(2) d(3)] unescaped low True d
      show ?thesis by auto
    next
      case False
      with "2.prems" have low: "\<not> isLowSurrogate c" and "well_formed cs"
        by auto
      with "2.IH"(3) [OF unescaped low False] unescaped False show ?thesis
        by auto
    qed
  qed
qed

lemma uriUnescaped_hexDigit: "d < 16 \<Longrightarrow> uriUnescaped (hexDigit d)"
proof -
  have "uriUnescaped (hexDigit 0)" "uriUnescaped (hexDigit 1)" "uriUnescaped (hexDigit 2)"
    "uriUnescaped (hexDigit 3)" "uriUnescaped (hexDigit 4)" "uriUnescaped (hexDigit 5)"
    "uriUnescaped (hexDigit 6)" "uriUnescaped (hexDigit 7)" "uriUnescaped (hexDigit 8)"
    "uriUnescaped (hexDigit 9)" "uriUnescaped (hexDigit 10)" "uriUnescaped (hexDigit 11)"
    "uriUnescaped (hexDigit 12)" "uriUnescaped (hexDigit 13)" "uriUnescaped (hexDigit 14)"
    "uriUnescaped (hexDigit 15)"
    by (simp_all add: hexDigit_def uriUnescaped_def)
  then show "d < 16 \<Longrightarrow> uriUnescaped (hexDigit d)"
    by (auto dest!: less_16_cases)
qed

lemma utf8_octets_small:
  assumes "cp < 0x110000"
  shows "\<forall>b \<in> set (utf8_octets cp). b < 256"
proof -
  have "cp < 0x800 \<Longrightarrow> 0xC0 + cp div 0x40 < 256"
    using less_mult_imp_div_less [where m = cp and i = "0x20" and n = "0x40"] by simp
  moreover have "cp < 0x10000 \<Longrightarrow> 0xE0 + cp div 0x1000 < 256"
    using less_mult_imp_div_less [where m = cp and i = "0x10" and n = "0x1000"] by simp
  moreover have "0xF0 + cp div 0x40000 < 256"
    using assms less_mult_imp_div_less [where m = cp and i = "0x5" and n = "0x40000"] by simp
  ultimately show ?thesis
    using continuation_small by (simp add: utf8_octets_def)
qed

lemma escapeOctets_chars:
  assumes "\<forall>b \<in> set bs. b < 256"
  shows "\<forall>c \<in> set (escapeOctets bs). uriUnescaped c \<or> c = 0x25"
  using assms
proof (induction bs)
  case Nil
  then show ?case by (simp add: escapeOctets_def)
next
  case (Cons b bs)
  then have "b < 256"
    by simp
  then have "b div 16 < 16" "b mod 16 < 16"
    by simp_all
  then have "uriUnescaped (hexDigit (b div 16))" "uriUnescaped (hexDigit (b mod 16))"
    by (simp_all only: uriUnescaped_hexDigit)
  with Cons show ?case
    by (simp add: escapeOctets_def escapeOctet_def)
qed

lemma encodeURIComponent_chars:
  "encodeURIComponent s = Some u \<Longrightarrow> \<forall>c \<in> set u. uriUnescaped c \<or> c = 0x25"
proof (induction s arbitrary: u rule: encodeURIComponent.induct)
  case 1
  then show ?case by simp
next
  case (2 c cs)
  show ?case
  proof (cases "uriUnescaped c")
    case True
    with "2.prems" "2.IH"(1) [OF True] show ?thesis
      by auto
  next
    case False
    note unescaped = this
    show ?thesis
    proof (cases "isLowSurrogate c")
      case True
      with unescaped "2.prems" show ?thesis by simp
    next
      case False
      note low = this
      show ?thesis
      proof (cases "isHighSurrogate c")
        case True
        with unescaped low "2.prems" obtain d ds v where
          d: "cs = d # ds" "isLowSurrogate d" "encodeURIComponent ds = Some v"
            "u = escapeOctets (utf8_octets (UTF16SurrogatePairToCodePoint c d)) @ v"
          by (auto split: list.splits if_splits)
        from pair_code_point(2) [OF True d(2)]
        have "\<forall>b \<in> set (utf8_octets (UTF16SurrogatePairToCodePoint c d)). b < 256"
          by (rule utf8_octets_small)
        then have "\<forall>x \<in> set (escapeOctets (utf8_octets (UTF16SurrogatePairToCodePoint c d))).
            uriUnescaped x \<or> x = 0x25"
          by (rule escapeOctets_chars)
        with "2.IH"(2) [OF unescaped low True d(1) d(2) d(3)] show ?thesis
          unfolding d(4) by auto
      next
        case False
        with unescaped low "2.prems" obtain v where
          v: "encodeURIComponent cs = Some v" "u = escapeOctets (utf8_octets (unat c)) @ v"
          by auto
        have "unat c < 0x110000"
          using unat_code_unit [of c] by simp
        then have "\<forall>b \<in> set (utf8_octets (unat c)). b < 256"
          by (rule utf8_octets_small)
        then have "\<forall>x \<in> set (escapeOctets (utf8_octets (unat c))). uriUnescaped x \<or> x = 0x25"
          by (rule escapeOctets_chars)
        with "2.IH"(3) [OF unescaped low False v(1)] show ?thesis
          unfolding v(2) by auto
      qed
    qed
  qed
qed

lemma uri_char_plain:
  assumes "uriUnescaped c \<or> c = 0x25"
  shows "\<not> isLineTerminator c" and "\<not> isWhiteSpace c"
proof -
  from assms have "unat c < 128 \<and> 0x21 \<le> unat c"
    by (auto simp: uriUnescaped_def word_le_nat_alt)
  then have "c \<noteq> 0x0A \<and> c \<noteq> 0x0D \<and> c \<noteq> 0x2028 \<and> c \<noteq> 0x2029 \<and> c \<noteq> 0x09 \<and> c \<noteq> 0x0B
      \<and> c \<noteq> 0x0C \<and> c \<noteq> 0x20 \<and> c \<noteq> 0xA0 \<and> c \<noteq> 0xFEFF \<and> c \<noteq> 0x1680 \<and> c \<noteq> 0x202F
      \<and> c \<noteq> 0x205F \<and> c \<noteq> 0x3000 \<and> \<not> 0x2000 \<le> c"
    by (auto simp: word_le_nat_alt)
  then show "\<not> isLineTerminator c" and "\<not> isWhiteSpace c"
    by (simp_all add: isLineTerminator_def isWhiteSpace_def)
qed

section \<open>The replacement works line by line\<close>

text \<open>
  A text is a last line, or a line, a line terminator and a text. As long as no replaced
  line has a line terminator in it, the lines of the result are the replaced lines of the
  input.
\<close>

lemma lines_induct [case_names last_line line]:
  assumes "\<And>a. \<forall>c \<in> set a. \<not> isLineTerminator c \<Longrightarrow> P a"
    and "\<And>a t r. \<forall>c \<in> set a. \<not> isLineTerminator c \<Longrightarrow> isLineTerminator t \<Longrightarrow> P r
           \<Longrightarrow> P (a @ t # r)"
  shows "P content"
proof (induction content rule: length_induct)
  case (1 content)
  let ?a = "takeWhile (\<lambda>c. \<not> isLineTerminator c) content"
  let ?rest = "dropWhile (\<lambda>c. \<not> isLineTerminator c) content"
  have a: "\<forall>c \<in> set ?a. \<not> isLineTerminator c"
    by (auto dest: set_takeWhileD)
  show ?case
  proof (cases ?rest)
    case Nil
    then have "content = ?a"
      by (metis append_Nil2 takeWhile_dropWhile_id)
    with a assms(1) [of ?a] show ?thesis
      by simp
  next
    case (Cons t r)
    then have content: "content = ?a @ t # r"
      by (metis takeWhile_dropWhile_id)
    from Cons have t: "isLineTerminator t"
      using hd_dropWhile [of "\<lambda>c. \<not> isLineTerminator c" content] by auto
    from content have "length r < length content"
      by (metis add_Suc_right length_Cons length_append less_add_Suc2)
    with 1 have "P r"
      by blast
    from assms(2) [OF a t this] content show ?thesis
      by simp
  qed
qed

lemma takeWhile_line:
  assumes "\<forall>c \<in> set a. \<not> isLineTerminator c"
  shows "takeWhile (\<lambda>c. \<not> isLineTerminator c) a = a"
    and "dropWhile (\<lambda>c. \<not> isLineTerminator c) a = []"
  using assms by simp_all

lemma takeWhile_lines:
  assumes "\<forall>c \<in> set a. \<not> isLineTerminator c" and "isLineTerminator t"
  shows "takeWhile (\<lambda>c. \<not> isLineTerminator c) (a @ t # r) = a"
    and "dropWhile (\<lambda>c. \<not> isLineTerminator c) (a @ t # r) = t # r"
  using assms by (simp_all add: takeWhile_append2 dropWhile_append2)

lemma split_lines_last:
  assumes "\<forall>c \<in> set a. \<not> isLineTerminator c"
  shows "split_lines a = [a]"
  by (subst split_lines.simps) (simp add: takeWhile_line [OF assms])

lemma split_lines_more:
  assumes "\<forall>c \<in> set a. \<not> isLineTerminator c" and "isLineTerminator t"
  shows "split_lines (a @ t # r) = a # split_lines r"
  by (subst split_lines.simps) (simp add: takeWhile_lines [OF assms])

lemma replace_ts_lines_last:
  assumes "\<forall>c \<in> set a. \<not> isLineTerminator c"
  shows "replace_ts_lines callback a = (if ts_line a then callback a else Inr a)"
  by (subst replace_ts_lines.simps)
    (simp add: takeWhile_line [OF assms] split: sum.splits)

lemma replace_ts_lines_more:
  assumes "\<forall>c \<in> set a. \<not> isLineTerminator c" and "isLineTerminator t"
  shows "replace_ts_lines callback (a @ t # r) =
           (case (if ts_line a then callback a else Inr a) of
              Inl e \<Rightarrow> Inl e
            | Inr a' \<Rightarrow>
                (case replace_ts_lines callback r of
                   Inl e \<Rightarrow> Inl e
                 | Inr r' \<Rightarrow> Inr (a' @ t # r')))"
  by (subst replace_ts_lines.simps) (simp add: takeWhile_lines [OF assms] split: sum.splits)

lemma replace_ts_lines_lines:
  assumes one_line: "\<And>l r. ts_line l \<Longrightarrow> callback l = Inr r \<Longrightarrow> \<forall>c \<in> set r. \<not> isLineTerminator c"
    and "replace_ts_lines callback content = Inr out"
  shows "list_all2 (replaced_line callback) (split_lines content) (split_lines out)"
  using assms(2)
proof (induction content arbitrary: out rule: lines_induct)
  case (last_line a)
  then have out: "(if ts_line a then callback a else Inr a) = Inr out"
    by (simp add: replace_ts_lines_last)
  with last_line(1) one_line [of a out] have "\<forall>c \<in> set out. \<not> isLineTerminator c"
    by (auto split: if_splits)
  with out last_line(1) show ?case
    by (simp add: split_lines_last replaced_line_def)
next
  case (line a t r)
  from line.prems obtain a' r' where
    parts: "(if ts_line a then callback a else Inr a) = Inr a'"
      "replace_ts_lines callback r = Inr r'" "out = a' @ t # r'"
    by (auto simp: replace_ts_lines_more [OF line.hyps] split: sum.splits)
  with line.hyps(1) one_line [of a a'] have "\<forall>c \<in> set a'. \<not> isLineTerminator c"
    by (auto split: if_splits)
  with parts line.IH [OF parts(2)] line.hyps show ?case
    by (simp add: split_lines_more replaced_line_def)
qed

lemma replace_ts_lines_succeeds:
  assumes "\<forall>l \<in> set (split_lines content). ts_line l \<longrightarrow> (\<exists>r. callback l = Inr r)"
  shows "\<exists>out. replace_ts_lines callback content = Inr out"
  using assms
proof (induction content rule: lines_induct)
  case (last_line a)
  then show ?case
    by (auto simp: replace_ts_lines_last split_lines_last)
next
  case (line a t r)
  from line.prems line.hyps have "\<exists>r'. replace_ts_lines callback r = Inr r'"
    by (intro line.IH) (simp add: split_lines_more)
  moreover from line.prems line.hyps have "\<exists>a'. (if ts_line a then callback a else Inr a) = Inr a'"
    by (auto simp: split_lines_more)
  ultimately show ?case
    by (auto simp: replace_ts_lines_more [OF line.hyps])
qed

lemma well_formed_lines:
  "well_formed content \<Longrightarrow> \<forall>l \<in> set (split_lines content). well_formed l"
proof (induction content rule: lines_induct)
  case (last_line a)
  then show ?case by (simp add: split_lines_last)
next
  case (line a t r)
  from line.hyps(2) have t: "\<not> isLowSurrogate t" "\<not> isHighSurrogate t"
    by (auto simp: isLineTerminator_def isLowSurrogate_def isHighSurrogate_def)
  with line.prems have "well_formed a" "well_formed r"
    by (simp_all add: well_formed_split)
  with line.IH line.hyps show ?case
    by (simp add: split_lines_more)
qed

section \<open>Facts about the handlers\<close>

lemma map_of_set_property:
  "map_of (set_property k v ps) k' = (if k' = k then Some v else map_of ps k')"
  by (induction ps) auto

lemma spread_empty_object: "spread ps (Object []) = ps"
  by (simp add: spread_def)

lemma requestHeaders_absent: "\<not> truthy hs \<Longrightarrow> requestHeaders e hs = Object []"
  by (simp add: requestHeaders_def)

lemma m3u8_proxy_fetches:
  assumes "truthy (query_url req)"
    and "decodeURIComponent (the (query_url req)) = Some decodedUrl"
  shows "snd (m3u8_proxy e req) =
           [(decodedUrl, spread m3u8_defaults (requestHeaders e (query_headers req)))]"
  using assms
  by (simp add: m3u8_proxy_def Let_def split: fetch_result.splits sum.splits)

lemma ts_proxy_fetches:
  assumes "truthy (query_url req)"
    and "decodeURIComponent (the (query_url req)) = Some decodedUrl"
  shows "snd (ts_proxy e req) =
           [(decodedUrl, spread (ts_defaults (headers_range req))
                           (requestHeaders e (query_headers req)))]"
  using assms
  by (simp add: ts_proxy_def Let_def split: fetch_result.splits)

lemma scenario_url:
  "decodeURIComponent (js ''http%3A%2F%2Fcdn.example%2Fa%2Findex.m3u8'') =
     Some (js ''http://cdn.example/a/index.m3u8'')"
  by code_simp

lemma m3u8_proxy_rewrite:
  assumes "truthy (query_url req)"
    and "decodeURIComponent (the (query_url req)) = Some decodedUrl"
    and "fetch e decodedUrl (spread m3u8_defaults (requestHeaders e (query_headers req)))
         = Resolved response"
    and "ok response"
    and "response_text response = Inr content"
  shows "fst (m3u8_proxy e req) =
           (case replace_ts_lines (rewrite_callback req (upto_last_slash decodedUrl)) content of
              Inl error \<Rightarrow> m3u8_failed error
            | Inr content' \<Rightarrow>
                \<lparr>res_status = 200, res_headers = m3u8_headers, res_body = Text content'\<rparr>)"
  using assms by (simp add: m3u8_proxy_def Let_def split: sum.splits)

lemma rewrite_callback_plain:
  assumes "\<not> truthy (query_headers req)"
  shows "rewrite_callback req baseUrl tsFile =
           (case encodeURIComponent (resolve baseUrl tsFile) of
              None \<Rightarrow> Inl URIError
            | Some u \<Rightarrow> Inr (origin req @ js ''/ts-proxy?url='' @ u))"
  using assms by (simp add: rewrite_callback_def Let_def split: option.splits)

lemma rewrite_callback_Inr:
  assumes "rewrite_callback req baseUrl tsFile = Inr r"
  shows "\<exists>u. encodeURIComponent (resolve baseUrl tsFile) = Some u \<and>
           r = origin req @ js ''/ts-proxy?url='' @ u"
  using assms by (auto simp: rewrite_callback_def Let_def split: option.splits if_splits)

lemma literal_lines:
  "\<forall>c \<in> set (protocol_name p). \<not> isLineTerminator c"
  "\<forall>c \<in> set (js ''://''). \<not> isLineTerminator c"
  "\<forall>c \<in> set (js ''/ts-proxy?url=''). \<not> isLineTerminator c"
  by (cases p; simp add: js_def isLineTerminator_def)
    (simp_all add: js_def isLineTerminator_def)

lemma rewritten_one_line:
  assumes "\<forall>c \<in> set (template (host req)). \<not> isLineTerminator c"
    and "rewrite_callback req baseUrl tsFile = Inr r"
  shows "\<forall>c \<in> set r. \<not> isLineTerminator c"
proof -
  from rewrite_callback_Inr [OF assms(2)] obtain u where
    u: "encodeURIComponent (resolve baseUrl tsFile) = Some u"
      "r = origin req @ js ''/ts-proxy?url='' @ u"
    by blast
  from encodeURIComponent_chars [OF u(1)] have "\<forall>c \<in> set u. \<not> isLineTerminator c"
    using uri_char_plain(1) by blast
  with assms(1) literal_lines show ?thesis
    unfolding u(2) origin_def by auto
qed

lemma trim_keeps_http:
  assumes "startsWith s (js ''http'')"
  shows "startsWith (trim s) (js ''http'')"
proof -
  let ?W = "\<lambda>c. isWhiteSpace c \<or> isLineTerminator c"
  have len: "length (js ''http'') = 4"
    by (simp add: js_def)
  from assms obtain rest where s: "s = js ''http'' @ rest"
    unfolding startsWith_def by (metis append_take_drop_id)
  have h: "js ''http'' = [0x68, 0x74, 0x74, 0x70]"
    by (simp add: js_def)
  have W: "\<not> ?W 0x68" "\<not> ?W 0x70"
    by (simp_all add: isWhiteSpace_def isLineTerminator_def)
  have front: "dropWhile ?W s = s"
    unfolding s h using W by simp
  have "\<exists>xs. dropWhile ?W (rev s) = xs @ rev (js ''http'')"
  proof (cases "\<forall>c \<in> set (rev rest). ?W c")
    case True
    then have "dropWhile ?W (rev rest @ rev (js ''http'')) = dropWhile ?W (rev (js ''http''))"
      by (simp add: dropWhile_append)
    also have "\<dots> = rev (js ''http'')"
      unfolding h using W by simp
    finally show ?thesis
      unfolding s by simp
  next
    case False
    then have "dropWhile ?W (rev rest @ rev (js ''http'')) =
        dropWhile ?W (rev rest) @ rev (js ''http'')"
      by (auto simp: dropWhile_append)
    then show ?thesis
      unfolding s by auto
  qed
  then obtain xs where "dropWhile ?W (rev s) = xs @ rev (js ''http'')"
    by blast
  then have "trim s = js ''http'' @ rev xs"
    unfolding trim_def front by simp
  then show ?thesis
    by (simp add: startsWith_def)
qed

lemma origin_http: "startsWith (origin req @ rest) (js ''http'')"
  by (cases "protocol req") (simp_all add: origin_def startsWith_def js_def)

lemma rewritten_not_resolved:
  assumes "rewrite_callback req baseUrl tsFile = Inr r"
  shows "resolve baseUrl' r = trim r"
proof -
  from rewrite_callback_Inr [OF assms] obtain u where
    "r = origin req @ js ''/ts-proxy?url='' @ u"
    by blast
  then have "startsWith r (js ''http'')"
    by (simp add: origin_http)
  then have "startsWith (trim r) (js ''http'')"
    by (rule trim_keeps_http)
  then show ?thesis
    by (simp add: resolve_def)
qed

lemma ts_line_segment_reference: "ts_line l \<Longrightarrow> segment_reference l"
  by (cases l) (auto simp: ts_line_def segment_reference_def startsWith_def js_def)

lemma white_space_plain:
  assumes "isWhiteSpace c \<or> isLineTerminator c"
  shows "\<not> isHighSurrogate c \<and> \<not> isLowSurrogate c"
proof -
  from assms have "unat c < 0xD800 \<or> unat c = 0xFEFF"
    by (auto simp: isWhiteSpace_def isLineTerminator_def word_le_nat_alt)
  then show ?thesis
    by (auto simp: isHighSurrogate_unat isLowSurrogate_unat)
qed

lemma well_formed_trim:
  assumes "well_formed s"
  shows "well_formed (trim s)"
proof -
  let ?W = "\<lambda>c. isWhiteSpace c \<or> isLineTerminator c"
  let ?m = "dropWhile ?W s"
  have "\<forall>c \<in> set (takeWhile ?W s). \<not> isHighSurrogate c \<and> \<not> isLowSurrogate c"
    using white_space_plain by (auto dest: set_takeWhileD)
  then have "well_formed (takeWhile ?W s @ ?m) = well_formed ?m"
    by (rule well_formed_drop_plain)
  with assms have m: "well_formed ?m"
    by simp
  have "?m = rev (dropWhile ?W (rev ?m)) @ rev (takeWhile ?W (rev ?m))"
    by (metis rev_append rev_rev_ident takeWhile_dropWhile_id)
  then have split: "?m = trim s @ rev (takeWhile ?W (rev ?m))"
    by (simp add: trim_def)
  have "\<forall>c \<in> set (rev (takeWhile ?W (rev ?m))). \<not> isHighSurrogate c \<and> \<not> isLowSurrogate c"
    using white_space_plain by (auto dest: set_takeWhileD)
  then have "well_formed (trim s @ rev (takeWhile ?W (rev ?m))) = well_formed (trim s)"
    by (rule well_formed_butlast_plain)
  with m split show ?thesis
    by simp
qed

lemma upto_last_slash_cases:
  "upto_last_slash s = [] \<or> (\<exists>b. s = upto_last_slash s @ b \<and> last (upto_last_slash s) = 0x2F)"
proof (induction s)
  case Nil
  then show ?case by simp
next
  case (Cons c cs)
  show ?case
  proof (cases "0x2F \<in> set cs")
    case True
    then have "upto_last_slash cs \<noteq> []"
      by (induction cs) (auto split: if_splits)
    with Cons True show ?thesis
      by auto
  next
    case False
    then show ?thesis by auto
  qed
qed

lemma upto_last_slash_no_slash: "0x2F \<notin> set s \<Longrightarrow> upto_last_slash s = []"
  by (induction s) auto

lemma upto_last_slash_last: "0x2F \<notin> set b \<Longrightarrow> upto_last_slash (a @ 0x2F # b) = a @ [0x2F]"
  by (induction a) (auto simp: upto_last_slash_no_slash)

lemma well_formed_upto_last_slash:
  assumes "well_formed s"
  shows "well_formed (upto_last_slash s)"
proof -
  from upto_last_slash_cases [of s] show ?thesis
  proof
    assume "upto_last_slash s = []"
    then show ?thesis by simp
  next
    assume "\<exists>b. s = upto_last_slash s @ b \<and> last (upto_last_slash s) = 0x2F"
    then obtain b where b: "s = upto_last_slash s @ b" "last (upto_last_slash s) = 0x2F"
      by blast
    show ?thesis
    proof (cases "upto_last_slash s = []")
      case True
      then show ?thesis by simp
    next
      case False
      with b(2) obtain a where a: "upto_last_slash s = a @ [0x2F]"
        by (metis append_butlast_last_id)
      have slash: "\<not> isLowSurrogate 0x2F" "\<not> isHighSurrogate 0x2F"
        by (simp_all add: isLowSurrogate_def isHighSurrogate_def)
      from b(1) a have "s = a @ 0x2F # b"
        by simp
      with assms slash have "well_formed a"
        by (metis well_formed_split)
      with slash show ?thesis
        unfolding a by (simp add: well_formed_split)
    qed
  qed
qed

lemma well_formed_resolve:
  assumes "well_formed baseUrl" and "well_formed tsFile"
  shows "well_formed (resolve baseUrl tsFile)"
  using assms by (simp add: resolve_def Let_def well_formed_trim well_formed_append)

lemma rewrite_callback_headers:
  assumes "truthy (query_headers req)"
  shows "\<exists>error. rewrite_callback req baseUrl tsFile = Inl error"
  using assms by (simp add: rewrite_callback_def Let_def split: option.splits)

lemma uri_char_not_delimiter:
  assumes "uriUnescaped c \<or> c = 0x25"
  shows "c \<noteq> 0x26 \<and> c \<noteq> 0x23 \<and> c \<noteq> 0x3D \<and> c \<noteq> 0x3F \<and> c \<noteq> 0x2B"
  using assms by (auto simp: uriUnescaped_def)

lemma replace_ts_lines_cong:
  assumes "\<forall>l \<in> set (split_lines content). ts_line l \<longrightarrow> callback l = callback' l"
  shows "replace_ts_lines callback content = replace_ts_lines callback' content"
  using assms
proof (induction content rule: lines_induct)
  case (last_line a)
  then show ?case
    by (simp add: replace_ts_lines_last split_lines_last)
next
  case (line a t r)
  from line.prems line.hyps have "replace_ts_lines callback r = replace_ts_lines callback' r"
    by (intro line.IH) (simp add: split_lines_more)
  moreover from line.prems line.hyps have "ts_line a \<longrightarrow> callback a = callback' a"
    by (simp add: split_lines_more)
  ultimately show ?case
    unfolding replace_ts_lines_more [OF line.hyps] by (cases "ts_line a") (simp_all split: sum.splits)
qed

lemma rewrite_callback_cong:
  "resolve baseUrl tsFile = resolve baseUrl' tsFile \<Longrightarrow>
     rewrite_callback req baseUrl tsFile = rewrite_callback req baseUrl' tsFile"
  by (simp add: rewrite_callback_def)

lemma scenario_lines:
  "split_lines scenario_playlist =
     [js ''#EXTM3U'', js ''#EXTINF:10.0,'', js ''seg0.ts'', js ''#EXTINF:10.0,'',
      js ''http://other.cdn/seg1.ts'']"
  by code_simp

lemma scenario_rewrite:
  "replace_ts_lines (rewrite_callback scenario_request (js ''http://cdn.example/a/''))
     scenario_playlist = Inr rewritten_playlist"
  by code_simp

lemma rewritten_lines:
  "split_lines rewritten_playlist =
     [js ''#EXTM3U'', js ''#EXTINF:10.0,'',
      js ''http://relay.example/ts-proxy?url=http%3A%2F%2Fcdn.example%2Fa%2Fseg0.ts'',
      js ''#EXTINF:10.0,'',
      js ''http://relay.example/ts-proxy?url=http%3A%2F%2Fother.cdn%2Fseg1.ts'']"
  by code_simp

lemma scenario_host: "\<forall>c \<in> set (template (host scenario_request)). \<not> isLineTerminator c"
  by (simp add: scenario_request_def js_def isLineTerminator_def)

section \<open>The claims\<close>

text \<open>
  C1. With a \<open>headers\<close> parameter on the request, the source means to append it to every
  proxy link, but the link is a \<open>const\<close> binding and the append throws. For the request
  \<open>/m3u8-proxy?url=http%3A%2F%2Fcdn.example%2Fa%2Findex.m3u8&headers=%7B%7D\<close> and the
  upstream playlist \<open>seg0.ts\<close> the reply is the error 500 with the details
  \<open>Assignment to constant variable.\<close>, not a rewritten playlist.
\<close>

theorem headers_parameter_throws:
  "fst (m3u8_proxy (serving (upstream_playlist (js ''seg0.ts'')))
         (scenario_request\<lparr>query_headers := Some (js ''%7B%7D'')\<rparr>)) =
     \<lparr>res_status = 500, res_headers = [],
      res_body = Json [(js ''error'', js ''Failed to fetch M3U8''),
                       (js ''details'', js ''Assignment to constant variable.'')]\<rparr>"
  by code_simp

text \<open>
  C2, as the source has it. The request has a \<open>url\<close> that decodes, no \<open>headers\<close>, and
  the upstream answers with a 2xx status and a playlist; the decoded URL and the playlist
  are well-formed text and the \<open>Host\<close> of the request has no line terminator in it. Then
  the reply is 200 with a playlist of as many lines, in which every line that does not
  start with \<open>#\<close> and has \<open>.ts\<close> after at least one code unit is replaced by the relay
  origin, \<open>/ts-proxy?url=\<close> and the text \<open>u\<close> that \<open>encodeURIComponent\<close> gives for the
  reference resolved against \<open>baseUrl\<close>, the decoded URL up to and including its last
  \<open>/\<close>. That text is made of unescaped characters and \<open>%\<close> escapes only, so no
  \<open>&\<close>, \<open>#\<close>, \<open>=\<close>, \<open>?\<close> or \<open>+\<close> ends or splits it: \<open>u\<close> is the whole
  \<open>url\<close> parameter of the link, and \<open>decodeURIComponent\<close> turns it back into the
  resolved reference. Every other line is the line of the input.
\<close>

theorem playlist_rewrite:
  assumes "truthy (query_url req)"
    and "decodeURIComponent (the (query_url req)) = Some decodedUrl"
    and "\<not> truthy (query_headers req)"
    and "fetch e decodedUrl m3u8_defaults = Resolved response"
    and "ok response"
    and "response_text response = Inr content"
    and "well_formed decodedUrl"
    and "well_formed content"
    and "\<forall>c \<in> set (template (host req)). \<not> isLineTerminator c"
  shows "\<exists>out.
           fst (m3u8_proxy e req) =
             \<lparr>res_status = 200, res_headers = m3u8_headers, res_body = Text out\<rparr> \<and>
           length (split_lines out) = length (split_lines content) \<and>
           (\<forall>i < length (split_lines content).
              if ts_line (split_lines content ! i)
              then \<exists>u. split_lines out ! i = origin req @ js ''/ts-proxy?url='' @ u \<and>
                     encodeURIComponent
                       (resolve (upto_last_slash decodedUrl) (split_lines content ! i)) = Some u \<and>
                     (\<forall>c \<in> set u. uriUnescaped c \<or> c = 0x25) \<and>
                     0x26 \<notin> set u \<and> 0x23 \<notin> set u \<and> 0x3D \<notin> set u \<and> 0x3F \<notin> set u \<and>
                     0x2B \<notin> set u \<and>
                     decodeURIComponent u =
                       Some (resolve (upto_last_slash decodedUrl) (split_lines content ! i))
              else split_lines out ! i = split_lines content ! i)"
proof -
  let ?base = "upto_last_slash decodedUrl"
  let ?cb = "rewrite_callback req ?base"
  have base: "well_formed ?base"
    using assms(7) by (rule well_formed_upto_last_slash)
  have cb: "\<exists>u. ?cb l = Inr (origin req @ js ''/ts-proxy?url='' @ u) \<and>
      encodeURIComponent (resolve ?base l) = Some u \<and>
      (\<forall>c \<in> set u. uriUnescaped c \<or> c = 0x25) \<and>
      0x26 \<notin> set u \<and> 0x23 \<notin> set u \<and> 0x3D \<notin> set u \<and> 0x3F \<notin> set u \<and> 0x2B \<notin> set u \<and>
      decodeURIComponent u = Some (resolve ?base l)" if "well_formed l" for l
  proof -
    from base that have "well_formed (resolve ?base l)"
      by (rule well_formed_resolve)
    then obtain u where u: "encodeURIComponent (resolve ?base l) = Some u"
      using encode_well_formed by blast
    then have decoded: "decodeURIComponent u = Some (resolve ?base l)"
      by (rule decode_encode)
    from u have chars: "\<forall>c \<in> set u. uriUnescaped c \<or> c = 0x25"
      by (rule encodeURIComponent_chars)
    then have "0x26 \<notin> set u \<and> 0x23 \<notin> set u \<and> 0x3D \<notin> set u \<and> 0x3F \<notin> set u \<and>
        0x2B \<notin> set u"
      using uri_char_not_delimiter by blast
    moreover from u assms(3) have "?cb l = Inr (origin req @ js ''/ts-proxy?url='' @ u)"
      by (simp add: rewrite_callback_plain)
    ultimately show ?thesis
      using u decoded chars by blast
  qed
  have lines: "\<forall>l \<in> set (split_lines content). well_formed l"
    using assms(8) by (rule well_formed_lines)
  with cb have "\<forall>l \<in> set (split_lines content). ts_line l \<longrightarrow> (\<exists>r. ?cb l = Inr r)"
    by blast
  then obtain out where out: "replace_ts_lines ?cb content = Inr out"
    using replace_ts_lines_succeeds by blast
  have all: "list_all2 (replaced_line ?cb) (split_lines content) (split_lines out)"
    using rewritten_one_line [OF assms(9)] out by (rule replace_ts_lines_lines)
  have headers: "spread m3u8_defaults (requestHeaders e (query_headers req)) = m3u8_defaults"
    using assms(3) by (simp add: requestHeaders_absent spread_empty_object)
  have reply: "fst (m3u8_proxy e req) =
      \<lparr>res_status = 200, res_headers = m3u8_headers, res_body = Text out\<rparr>"
    using m3u8_proxy_rewrite [OF assms(1,2) _ assms(5,6)] assms(4) out
    by (simp add: headers)
  have len: "length (split_lines out) = length (split_lines content)"
    using all by (simp add: list_all2_lengthD)
  have each: "if ts_line (split_lines content ! i)
      then \<exists>u. split_lines out ! i = origin req @ js ''/ts-proxy?url='' @ u \<and>
             encodeURIComponent (resolve ?base (split_lines content ! i)) = Some u \<and>
             (\<forall>c \<in> set u. uriUnescaped c \<or> c = 0x25) \<and>
             0x26 \<notin> set u \<and> 0x23 \<notin> set u \<and> 0x3D \<notin> set u \<and> 0x3F \<notin> set u \<and>
             0x2B \<notin> set u \<and>
             decodeURIComponent u = Some (resolve ?base (split_lines content ! i))
      else split_lines out ! i = split_lines content ! i"
    if i: "i < length (split_lines content)" for i
  proof -
    from all i have r: "replaced_line ?cb (split_lines content ! i) (split_lines out ! i)"
      by (rule list_all2_nthD)
    from lines i have "well_formed (split_lines content ! i)"
      by simp
    from cb [OF this] obtain u where
      u: "?cb (split_lines content ! i) = Inr (origin req @ js ''/ts-proxy?url='' @ u)"
        "encodeURIComponent (resolve ?base (split_lines content ! i)) = Some u \<and>
         (\<forall>c \<in> set u. uriUnescaped c \<or> c = 0x25) \<and>
         0x26 \<notin> set u \<and> 0x23 \<notin> set u \<and> 0x3D \<notin> set u \<and> 0x3F \<notin> set u \<and> 0x2B \<notin> set u \<and>
         decodeURIComponent u = Some (resolve ?base (split_lines content ! i))"
      by blast
    show ?thesis
    proof (cases "ts_line (split_lines content ! i)")
      case True
      with r u(1) have "split_lines out ! i = origin req @ js ''/ts-proxy?url='' @ u"
        by (simp add: replaced_line_def)
      with u(2) True show ?thesis
        by (simp only: if_True) blast
    next
      case False
      with r show ?thesis
        by (simp add: replaced_line_def)
    qed
  qed
  from reply len each show ?thesis
    by blast
qed

theorem playlist_rewrite_witness:
  "truthy (query_url scenario_request)
   \<and> \<not> truthy (query_headers scenario_request)
   \<and> well_formed (js ''http://cdn.example/a/index.m3u8'')
   \<and> well_formed scenario_playlist
   \<and> ts_line (js ''seg0.ts'')
   \<and> (\<exists>out. fst (m3u8_proxy (serving (upstream_playlist scenario_playlist)) scenario_request) =
              \<lparr>res_status = 200, res_headers = m3u8_headers, res_body = Text out\<rparr>
            \<and> length (split_lines out) = 5
            \<and> (\<exists>u. split_lines out ! 2 = js ''http://relay.example'' @ js ''/ts-proxy?url='' @ u
                  \<and> encodeURIComponent (js ''http://cdn.example/a/seg0.ts'') = Some u
                  \<and> 0x26 \<notin> set u \<and> 0x23 \<notin> set u \<and> 0x3D \<notin> set u \<and> 0x3F \<notin> set u
                  \<and> 0x2B \<notin> set u
                  \<and> decodeURIComponent u = Some (js ''http://cdn.example/a/seg0.ts'')))"
proof -
  let ?e = "serving (upstream_playlist scenario_playlist)"
  have 1: "truthy (query_url scenario_request)"
    by (simp add: scenario_request_def js_def)
  have 2: "decodeURIComponent (the (query_url scenario_request)) =
             Some (js ''http://cdn.example/a/index.m3u8'')"
    by (simp add: scenario_request_def scenario_url)
  have 3: "\<not> truthy (query_headers scenario_request)"
    by (simp add: scenario_request_def)
  have 4: "fetch ?e (js ''http://cdn.example/a/index.m3u8'') m3u8_defaults =
             Resolved (upstream_playlist scenario_playlist)"
    by (simp add: serving_def)
  have 5: "ok (upstream_playlist scenario_playlist)"
    by (simp add: ok_def upstream_playlist_def)
  have 6: "response_text (upstream_playlist scenario_playlist) = Inr scenario_playlist"
    by (simp add: upstream_playlist_def)
  have 7: "well_formed (js ''http://cdn.example/a/index.m3u8'')"
    by code_simp
  have 8: "well_formed scenario_playlist"
    by code_simp
  have line: "ts_line (js ''seg0.ts'')"
    by code_simp
  have base: "upto_last_slash (js ''http://cdn.example/a/index.m3u8'') = js ''http://cdn.example/a/''"
    by code_simp
  have resolved: "resolve (js ''http://cdn.example/a/'') (js ''seg0.ts'') =
      js ''http://cdn.example/a/seg0.ts''"
    by code_simp
  have origin: "origin scenario_request = js ''http://relay.example''"
    by code_simp
  from playlist_rewrite [OF 1 2 3 4 5 6 7 8 scenario_host]
  obtain out where
    out: "fst (m3u8_proxy ?e scenario_request) =
        \<lparr>res_status = 200, res_headers = m3u8_headers, res_body = Text out\<rparr>"
      "length (split_lines out) = length (split_lines scenario_playlist)"
      "\<forall>i < length (split_lines scenario_playlist).
         if ts_line (split_lines scenario_playlist ! i)
         then \<exists>u. split_lines out ! i = origin scenario_request @ js ''/ts-proxy?url='' @ u \<and>
                encodeURIComponent
                  (resolve (upto_last_slash (js ''http://cdn.example/a/index.m3u8''))
                    (split_lines scenario_playlist ! i)) = Some u \<and>
                (\<forall>c \<in> set u. uriUnescaped c \<or> c = 0x25) \<and>
                0x26 \<notin> set u \<and> 0x23 \<notin> set u \<and> 0x3D \<notin> set u \<and> 0x3F \<notin> set u \<and>
                0x2B \<notin> set u \<and>
                decodeURIComponent u =
                  Some (resolve (upto_last_slash (js ''http://cdn.example/a/index.m3u8''))
                         (split_lines scenario_playlist ! i))
         else split_lines out ! i = split_lines scenario_playlist ! i"
    by blast
  have two: "2 < length (split_lines scenario_playlist)"
    by (simp add: scenario_lines)
  have at2: "split_lines scenario_playlist ! 2 = js ''seg0.ts''"
    by (simp add: scenario_lines)
  from out(3) two have "if ts_line (split_lines scenario_playlist ! 2)
         then \<exists>u. split_lines out ! 2 = origin scenario_request @ js ''/ts-proxy?url='' @ u \<and>
                encodeURIComponent
                  (resolve (upto_last_slash (js ''http://cdn.example/a/index.m3u8''))
                    (split_lines scenario_playlist ! 2)) = Some u \<and>
                (\<forall>c \<in> set u. uriUnescaped c \<or> c = 0x25) \<and>
                0x26 \<notin> set u \<and> 0x23 \<notin> set u \<and> 0x3D \<notin> set u \<and> 0x3F \<notin> set u \<and>
                0x2B \<notin> set u \<and>
                decodeURIComponent u =
                  Some (resolve (upto_last_slash (js ''http://cdn.example/a/index.m3u8''))
                         (split_lines scenario_playlist ! 2))
         else split_lines out ! 2 = split_lines scenario_playlist ! 2"
    by blast
  then have "\<exists>u. split_lines out ! 2 = js ''http://relay.example'' @ js ''/ts-proxy?url='' @ u \<and>
      encodeURIComponent (js ''http://cdn.example/a/seg0.ts'') = Some u \<and>
      0x26 \<notin> set u \<and> 0x23 \<notin> set u \<and> 0x3D \<notin> set u \<and> 0x3F \<notin> set u \<and> 0x2B \<notin> set u \<and>
      decodeURIComponent u = Some (js ''http://cdn.example/a/seg0.ts'')"
    unfolding at2 base resolved origin using line by (simp only: if_True) blast
  with out(1,2) 1 3 7 8 line show ?thesis
    by (auto simp: scenario_lines)
qed

text \<open>
  C2, as the claim has it, fails for the playlist of the one line \<open>.ts\<close>: the line does
  not start with \<open>#\<close> and contains \<open>.ts\<close>, and it comes back as it is.
\<close>

theorem bare_extension_is_not_rewritten:
  "\<not> startsWith (js ''.ts'') (js ''#'')
   \<and> contains (js ''.ts'') (js ''.ts'')
   \<and> fst (m3u8_proxy (serving (upstream_playlist (js ''.ts''))) scenario_request) =
       \<lparr>res_status = 200, res_headers = m3u8_headers, res_body = Text (js ''.ts'')\<rparr>"
  by code_simp

text \<open>
  C3. A reference whose trimmed text starts with \<open>http\<close> goes into the proxy link
  without \<open>baseUrl\<close>: the \<open>url\<close> parameter decodes to the trimmed reference itself. And
  in a playlist that the rewrite has produced, no line that the rewrite would replace
  again is resolved against a base URL, whatever that base is: the lines it has written
  start with \<open>http\<close> themselves. So a second run gives the same result for every base
  URL, the empty one included.
\<close>

theorem absolute_references_not_prefixed:
  assumes "\<forall>c \<in> set (template (host req)). \<not> isLineTerminator c"
  shows "(startsWith (trim tsFile) (js ''http'') \<and> \<not> truthy (query_headers req) \<and>
          well_formed tsFile \<longrightarrow>
            (\<exists>u. rewrite_callback req baseUrl tsFile = Inr (origin req @ js ''/ts-proxy?url='' @ u) \<and>
                 decodeURIComponent u = Some (trim tsFile)))
       \<and> (replace_ts_lines (rewrite_callback req baseUrl) content = Inr out \<longrightarrow>
            (\<forall>l \<in> set (split_lines out). ts_line l \<longrightarrow> resolve baseUrl' l = trim l) \<and>
            replace_ts_lines (rewrite_callback req' baseUrl') out =
              replace_ts_lines (rewrite_callback req' []) out)"
proof (intro conjI impI)
  assume a: "startsWith (trim tsFile) (js ''http'') \<and> \<not> truthy (query_headers req) \<and>
    well_formed tsFile"
  then have r: "resolve baseUrl tsFile = trim tsFile"
    by (simp add: resolve_def)
  from a have "well_formed (trim tsFile)"
    by (simp add: well_formed_trim)
  then obtain u where u: "encodeURIComponent (trim tsFile) = Some u"
    using encode_well_formed by blast
  then have "decodeURIComponent u = Some (trim tsFile)"
    by (rule decode_encode)
  with a u r show "\<exists>u. rewrite_callback req baseUrl tsFile =
      Inr (origin req @ js ''/ts-proxy?url='' @ u) \<and> decodeURIComponent u = Some (trim tsFile)"
    by (simp add: rewrite_callback_plain)
next
  assume out: "replace_ts_lines (rewrite_callback req baseUrl) content = Inr out"
  have all: "list_all2 (replaced_line (rewrite_callback req baseUrl))
      (split_lines content) (split_lines out)"
    using rewritten_one_line [OF assms(1)] out by (rule replace_ts_lines_lines)
  have unresolved: "resolve b l' = trim l'" if l': "l' \<in> set (split_lines out)" and ts: "ts_line l'"
    for b l'
  proof -
    from l' obtain i where i: "i < length (split_lines out)" "split_lines out ! i = l'"
      by (auto simp: in_set_conv_nth)
    from all have len: "length (split_lines content) = length (split_lines out)"
      by (rule list_all2_lengthD)
    with all i(1) have "replaced_line (rewrite_callback req baseUrl)
        (split_lines content ! i) (split_lines out ! i)"
      by (simp add: list_all2_nthD)
    with i(2) ts have "rewrite_callback req baseUrl (split_lines content ! i) = Inr l'"
      by (auto simp: replaced_line_def split: if_splits)
    then show "resolve b l' = trim l'"
      by (rule rewritten_not_resolved)
  qed
  then show "\<forall>l \<in> set (split_lines out). ts_line l \<longrightarrow> resolve baseUrl' l = trim l"
    by blast
  have "rewrite_callback req' baseUrl' l = rewrite_callback req' [] l"
    if "l \<in> set (split_lines out)" and "ts_line l" for l
  proof (rule rewrite_callback_cong)
    from that show "resolve baseUrl' l = resolve [] l"
      by (simp only: unresolved)
  qed
  then have "\<forall>l \<in> set (split_lines out). ts_line l \<longrightarrow>
      rewrite_callback req' baseUrl' l = rewrite_callback req' [] l"
    by blast
  then show "replace_ts_lines (rewrite_callback req' baseUrl') out =
      replace_ts_lines (rewrite_callback req' []) out"
    by (rule replace_ts_lines_cong)
qed

theorem absolute_references_not_prefixed_witness:
  "startsWith (trim (js ''http://other.cdn/seg1.ts'')) (js ''http'')
   \<and> well_formed (js ''http://other.cdn/seg1.ts'')
   \<and> (\<exists>u. rewrite_callback scenario_request (js ''http://cdn.example/a/'')
              (js ''http://other.cdn/seg1.ts'') =
            Inr (js ''http://relay.example'' @ js ''/ts-proxy?url='' @ u)
          \<and> decodeURIComponent u = Some (js ''http://other.cdn/seg1.ts''))
   \<and> replace_ts_lines (rewrite_callback scenario_request (js ''http://cdn.example/a/''))
        scenario_playlist = Inr rewritten_playlist
   \<and> ts_line (js ''http://relay.example/ts-proxy?url=http%3A%2F%2Fother.cdn%2Fseg1.ts'')
   \<and> resolve (js ''http://relay.example/'')
        (js ''http://relay.example/ts-proxy?url=http%3A%2F%2Fother.cdn%2Fseg1.ts'') =
       js ''http://relay.example/ts-proxy?url=http%3A%2F%2Fother.cdn%2Fseg1.ts''"
proof -
  let ?l = "js ''http://relay.example/ts-proxy?url=http%3A%2F%2Fother.cdn%2Fseg1.ts''"
  have 1: "startsWith (trim (js ''http://other.cdn/seg1.ts'')) (js ''http'')"
    by code_simp
  have 2: "\<not> truthy (query_headers scenario_request)"
    by (simp add: scenario_request_def)
  have 3: "well_formed (js ''http://other.cdn/seg1.ts'')"
    by code_simp
  have trimmed: "trim (js ''http://other.cdn/seg1.ts'') = js ''http://other.cdn/seg1.ts''"
    by code_simp
  have origin: "origin scenario_request = js ''http://relay.example''"
    by code_simp
  have line: "ts_line ?l"
    by code_simp
  have member: "?l \<in> set (split_lines rewritten_playlist)"
    by (simp add: rewritten_lines)
  have same: "trim ?l = ?l"
    by code_simp
  note inst = absolute_references_not_prefixed [OF scenario_host,
      of "js ''http://other.cdn/seg1.ts''" "js ''http://cdn.example/a/''" scenario_playlist
      rewritten_playlist "js ''http://relay.example/''"]
  from inst 1 2 3 have "\<exists>u. rewrite_callback scenario_request (js ''http://cdn.example/a/'')
        (js ''http://other.cdn/seg1.ts'') =
      Inr (origin scenario_request @ js ''/ts-proxy?url='' @ u) \<and>
      decodeURIComponent u = Some (trim (js ''http://other.cdn/seg1.ts''))"
    by blast
  moreover from inst scenario_rewrite member line
  have "resolve (js ''http://relay.example/'') ?l = trim ?l"
    by blast
  ultimately show ?thesis
    using 1 3 scenario_rewrite line by (simp add: trimmed origin same)
qed

text \<open>
  C4. A request whose \<open>url\<close> does not decode, or decodes to a text that the client does
  not parse as an absolute URI, sends no GET to any upstream and is answered with the
  error 500. When \<open>decodeURIComponent\<close> throws, the handlers do not call \<open>fetch\<close> at
  all; the handlers themselves do not look at the syntax of a decoded URL, they call
  \<open>fetch\<close> with it, and it is the client that refuses it before anything is sent.
\<close>

theorem invalid_url_is_not_fetched:
  assumes "truthy (query_url req)"
    and "decodeURIComponent (the (query_url req)) = None \<or>
         (\<exists>decodedUrl. decodeURIComponent (the (query_url req)) = Some decodedUrl \<and>
            \<not> absolute_uri decodedUrl)"
  shows "outbound_GETs absolute_uri
           (m3u8_proxy (e\<lparr>fetch := node_fetch absolute_uri upstream\<rparr>) req) = []
       \<and> fst (m3u8_proxy (e\<lparr>fetch := node_fetch absolute_uri upstream\<rparr>) req) =
           \<lparr>res_status = 500, res_headers = [],
            res_body = Json [(js ''error'', js ''Failed to fetch M3U8''),
              (js ''details'',
               if decodeURIComponent (the (query_url req)) = None then js ''URI malformed''
               else js ''Only absolute URLs are supported'')]\<rparr>
       \<and> outbound_GETs absolute_uri
           (ts_proxy (e\<lparr>fetch := node_fetch absolute_uri upstream\<rparr>) req) = []
       \<and> fst (ts_proxy (e\<lparr>fetch := node_fetch absolute_uri upstream\<rparr>) req) =
           \<lparr>res_status = 500, res_headers = [],
            res_body = Json [(js ''error'', js ''Failed to fetch TS file''),
              (js ''details'',
               if decodeURIComponent (the (query_url req)) = None then js ''URI malformed''
               else js ''Only absolute URLs are supported'')]\<rparr>
       \<and> (decodeURIComponent (the (query_url req)) = None \<longrightarrow>
            snd (m3u8_proxy (e\<lparr>fetch := node_fetch absolute_uri upstream\<rparr>) req) = [] \<and>
            snd (ts_proxy (e\<lparr>fetch := node_fetch absolute_uri upstream\<rparr>) req) = [])"
  using assms(2)
proof
  assume "decodeURIComponent (the (query_url req)) = None"
  with assms(1) show ?thesis
    by (simp add: m3u8_proxy_def ts_proxy_def m3u8_failed_def ts_failed_def outbound_GETs_def)
next
  assume "\<exists>decodedUrl. decodeURIComponent (the (query_url req)) = Some decodedUrl \<and>
    \<not> absolute_uri decodedUrl"
  then obtain decodedUrl where
    d: "decodeURIComponent (the (query_url req)) = Some decodedUrl" "\<not> absolute_uri decodedUrl"
    by blast
  with assms(1) show ?thesis
    by (simp add: m3u8_proxy_def ts_proxy_def m3u8_failed_def ts_failed_def outbound_GETs_def
        node_fetch_def Let_def)
qed

theorem invalid_url_is_not_fetched_witness:
  "truthy (Some (js ''not%20a%20url''))
   \<and> decodeURIComponent (js ''not%20a%20url'') = Some (js ''not a url'')
   \<and> \<not> http_url (js ''not a url'')
   \<and> outbound_GETs http_url
        (m3u8_proxy (serving partial_segment\<lparr>fetch := node_fetch http_url (fetch (serving partial_segment))\<rparr>)
          (scenario_request\<lparr>query_url := Some (js ''not%20a%20url'')\<rparr>)) = []
   \<and> fst (ts_proxy (serving partial_segment\<lparr>fetch := node_fetch http_url (fetch (serving partial_segment))\<rparr>)
          (scenario_request\<lparr>query_url := Some (js ''not%20a%20url'')\<rparr>)) =
       \<lparr>res_status = 500, res_headers = [],
        res_body = Json [(js ''error'', js ''Failed to fetch TS file''),
                         (js ''details'', js ''Only absolute URLs are supported'')]\<rparr>
   \<and> decodeURIComponent (js ''%E0%A4%A'') = None
   \<and> m3u8_proxy (serving partial_segment\<lparr>fetch := node_fetch http_url (fetch (serving partial_segment))\<rparr>)
        (scenario_request\<lparr>query_url := Some (js ''%E0%A4%A'')\<rparr>) =
       (\<lparr>res_status = 500, res_headers = [],
         res_body = Json [(js ''error'', js ''Failed to fetch M3U8''),
                          (js ''details'', js ''URI malformed'')]\<rparr>, [])"
proof -
  let ?e = "serving partial_segment"
  let ?bad = "scenario_request\<lparr>query_url := Some (js ''not%20a%20url'')\<rparr>"
  let ?broken = "scenario_request\<lparr>query_url := Some (js ''%E0%A4%A'')\<rparr>"
  have 1: "truthy (query_url ?bad)" "truthy (query_url ?broken)"
    by (simp_all add: js_def)
  have 2: "decodeURIComponent (js ''not%20a%20url'') = Some (js ''not a url'')"
    by code_simp
  have 3: "\<not> http_url (js ''not a url'')"
    by code_simp
  have 4: "decodeURIComponent (js ''%E0%A4%A'') = None"
    by code_simp
  have 5: "truthy (Some (js ''not%20a%20url''))"
    by (simp add: js_def)
  have bad: "decodeURIComponent (the (query_url ?bad)) = None \<or>
      (\<exists>decodedUrl. decodeURIComponent (the (query_url ?bad)) = Some decodedUrl \<and>
         \<not> http_url decodedUrl)"
    using 2 3 by simp
  have broken: "decodeURIComponent (the (query_url ?broken)) = None \<or>
      (\<exists>decodedUrl. decodeURIComponent (the (query_url ?broken)) = Some decodedUrl \<and>
         \<not> http_url decodedUrl)"
    using 4 by simp
  note a = invalid_url_is_not_fetched [OF 1(1) bad, where e = ?e and upstream = "fetch ?e"]
  note b = invalid_url_is_not_fetched [OF 1(2) broken, where e = ?e and upstream = "fetch ?e"]
  from a have a1: "outbound_GETs http_url
      (m3u8_proxy (?e\<lparr>fetch := node_fetch http_url (fetch ?e)\<rparr>) ?bad) = []"
    by blast
  from a 2 have a2: "fst (ts_proxy (?e\<lparr>fetch := node_fetch http_url (fetch ?e)\<rparr>) ?bad) =
      \<lparr>res_status = 500, res_headers = [],
       res_body = Json [(js ''error'', js ''Failed to fetch TS file''),
                        (js ''details'', js ''Only absolute URLs are supported'')]\<rparr>"
    by simp
  from b 4 have b1: "fst (m3u8_proxy (?e\<lparr>fetch := node_fetch http_url (fetch ?e)\<rparr>) ?broken) =
      \<lparr>res_status = 500, res_headers = [],
       res_body = Json [(js ''error'', js ''Failed to fetch M3U8''),
                        (js ''details'', js ''URI malformed'')]\<rparr>"
    and b2: "snd (m3u8_proxy (?e\<lparr>fetch := node_fetch http_url (fetch ?e)\<rparr>) ?broken) = []"
    by simp_all
  from b1 b2 have "m3u8_proxy (?e\<lparr>fetch := node_fetch http_url (fetch ?e)\<rparr>) ?broken =
      (\<lparr>res_status = 500, res_headers = [],
        res_body = Json [(js ''error'', js ''Failed to fetch M3U8''),
                         (js ''details'', js ''URI malformed'')]\<rparr>, [])"
    by (metis prod.collapse)
  with a1 a2 2 3 4 5 show ?thesis
    by simp
qed

text \<open>
  C5. A request to \<open>/m3u8-proxy\<close> or \<open>/ts-proxy\<close> without the \<open>url\<close> parameter is
  answered with status 400 and the body \<open>{"error":"URL parameter is required"}\<close>, and
  \<open>fetch\<close> is not called.
\<close>

theorem missing_url_is_400:
  assumes "query_url req = None"
  shows "m3u8_proxy e req =
           (\<lparr>res_status = 400, res_headers = [],
             res_body = Json [(js ''error'', js ''URL parameter is required'')]\<rparr>, [])
       \<and> ts_proxy e req =
           (\<lparr>res_status = 400, res_headers = [],
             res_body = Json [(js ''error'', js ''URL parameter is required'')]\<rparr>, [])"
  using assms by (simp add: m3u8_proxy_def ts_proxy_def url_required_def)

theorem missing_url_is_400_witness:
  "query_url (scenario_request\<lparr>query_url := None\<rparr>) = None
   \<and> m3u8_proxy (serving partial_segment) (scenario_request\<lparr>query_url := None\<rparr>) =
       (\<lparr>res_status = 400, res_headers = [],
         res_body = Json [(js ''error'', js ''URL parameter is required'')]\<rparr>, [])
   \<and> ts_proxy (serving partial_segment) (scenario_request\<lparr>query_url := None\<rparr>) =
       (\<lparr>res_status = 400, res_headers = [],
         res_body = Json [(js ''error'', js ''URL parameter is required'')]\<rparr>, [])"
proof -
  have absent: "query_url (scenario_request\<lparr>query_url := None\<rparr>) = None"
    by simp
  from missing_url_is_400 [OF absent, of "serving partial_segment"] absent
  show ?thesis by simp
qed

text \<open>
  C6. When the upstream answers with a status outside 200..299, both handlers reply with
  status 500 and a JSON body of the two members \<open>error\<close> and \<open>details\<close>; \<open>details\<close> is
  \<open>HTTP\<close>, the upstream status in decimal and the upstream status text, so it contains
  the status code; nothing of the upstream body is in the reply.
\<close>

theorem upstream_error_is_500:
  assumes "truthy (query_url req)"
    and "decodeURIComponent (the (query_url req)) = Some decodedUrl"
    and "\<not> ok response"
  shows "(fetch e decodedUrl (spread m3u8_defaults (requestHeaders e (query_headers req)))
            = Resolved response \<longrightarrow>
          fst (m3u8_proxy e req) =
            \<lparr>res_status = 500, res_headers = [],
             res_body = Json [(js ''error'', js ''Failed to fetch M3U8''),
               (js ''details'',
                js ''HTTP '' @ decimal (status response) @ js '': '' @ statusText response)]\<rparr>)
       \<and> (fetch e decodedUrl
            (spread (ts_defaults (headers_range req)) (requestHeaders e (query_headers req)))
            = Resolved response \<longrightarrow>
          fst (ts_proxy e req) =
            \<lparr>res_status = 500, res_headers = [],
             res_body = Json [(js ''error'', js ''Failed to fetch TS file''),
               (js ''details'',
                js ''HTTP '' @ decimal (status response) @ js '': '' @ statusText response)]\<rparr>)
       \<and> sublist (decimal (status response))
            (js ''HTTP '' @ decimal (status response) @ js '': '' @ statusText response)"
proof -
  have "sublist (decimal (status response))
          (js ''HTTP '' @ decimal (status response) @ (js '': '' @ statusText response))"
    unfolding sublist_def by blast
  with assms show ?thesis
    by (simp add: m3u8_proxy_def ts_proxy_def m3u8_failed_def ts_failed_def http_error_def
        del: decimal.simps)
qed

theorem upstream_error_is_500_witness:
  "\<not> ok not_found
   \<and> fst (ts_proxy (serving not_found) scenario_request) =
       \<lparr>res_status = 500, res_headers = [],
        res_body = Json [(js ''error'', js ''Failed to fetch TS file''),
                         (js ''details'', js ''HTTP 404: Not Found'')]\<rparr>
   \<and> fst (m3u8_proxy (serving not_found) scenario_request) =
       \<lparr>res_status = 500, res_headers = [],
        res_body = Json [(js ''error'', js ''Failed to fetch M3U8''),
                         (js ''details'', js ''HTTP 404: Not Found'')]\<rparr>
   \<and> sublist (js ''404'') (js ''HTTP 404: Not Found'')"
proof -
  have 1: "truthy (query_url scenario_request)"
    by (simp add: scenario_request_def js_def)
  have 2: "decodeURIComponent (the (query_url scenario_request)) =
             Some (js ''http://cdn.example/a/index.m3u8'')"
    by (simp add: scenario_request_def scenario_url)
  have 3: "\<not> ok not_found"
    by (simp add: ok_def not_found_def)
  have 4: "fetch (serving not_found) u hs = Resolved not_found" for u hs
    by (simp add: serving_def)
  have 5: "statusText not_found = js ''Not Found''" "decimal (status not_found) = js ''404''"
    by (simp_all add: not_found_def js_def)
  have 6: "js ''HTTP '' @ js ''404'' @ js '': '' @ js ''Not Found'' = js ''HTTP 404: Not Found''"
    by (simp add: js_def)
  from upstream_error_is_500 [OF 1 2 3, of "serving not_found"] 3
  show ?thesis
    by (simp add: 4 5 6 del: decimal.simps)
qed

text \<open>
  C7, as the source has it. For a segment that the upstream serves with a 2xx status: when
  \<open>headers.get('content-range')\<close> is a non-empty string the reply has status 206 and that
  value as its \<open>Content-Range\<close>; when the header is absent or empty the status is 200 and
  no \<open>Content-Range\<close> is set. In both cases the reply has \<open>Accept-Ranges: bytes\<close>, the
  upstream \<open>Content-Type\<close> when that is a non-empty string and \<open>video/mp2t\<close> otherwise,
  and the upstream bytes as its body.
\<close>

theorem segment_reply:
  assumes "truthy (query_url req)"
    and "decodeURIComponent (the (query_url req)) = Some decodedUrl"
    and "fetch e decodedUrl
           (spread (ts_defaults (headers_range req)) (requestHeaders e (query_headers req)))
         = Resolved response"
    and "ok response"
  shows "(truthy (headers_get response (js ''content-range'')) \<longrightarrow>
            res_status (fst (ts_proxy e req)) = 206 \<and>
            map_of (res_headers (fst (ts_proxy e req))) (js ''Content-Range'') =
              Some (String (the (headers_get response (js ''content-range'')))))
       \<and> (\<not> truthy (headers_get response (js ''content-range'')) \<longrightarrow>
            res_status (fst (ts_proxy e req)) = 200 \<and>
            map_of (res_headers (fst (ts_proxy e req))) (js ''Content-Range'') = None)
       \<and> map_of (res_headers (fst (ts_proxy e req))) (js ''Accept-Ranges'') =
            Some (String (js ''bytes''))
       \<and> map_of (res_headers (fst (ts_proxy e req))) (js ''Content-Type'') =
            Some (String (if truthy (headers_get response (js ''content-type''))
                          then the (headers_get response (js ''content-type''))
                          else js ''video/mp2t''))
       \<and> res_body (fst (ts_proxy e req)) = Piped (body response)"
proof -
  have keys: "js ''Content-Range'' \<noteq> js ''Content-Type''"
    "js ''Content-Range'' \<noteq> js ''Content-Length''"
    "js ''Content-Range'' \<noteq> js ''Accept-Ranges''"
    "js ''Content-Range'' \<noteq> js ''Access-Control-Allow-Origin''"
    "js ''Content-Range'' \<noteq> js ''Access-Control-Allow-Methods''"
    "js ''Content-Range'' \<noteq> js ''Access-Control-Allow-Headers''"
    "js ''Content-Range'' \<noteq> js ''Cache-Control''"
    "js ''Accept-Ranges'' \<noteq> js ''Content-Type''"
    "js ''Accept-Ranges'' \<noteq> js ''Content-Length''"
    by (simp_all add: js_def)
  show ?thesis
    using assms keys
    by (simp add: ts_proxy_def ts_headers_def map_of_set_property Let_def)
qed

theorem segment_reply_witness:
  "ok partial_segment
   \<and> res_status (fst (ts_proxy (serving partial_segment) scenario_request)) = 206
   \<and> map_of (res_headers (fst (ts_proxy (serving partial_segment) scenario_request)))
        (js ''Content-Range'') = Some (String (js ''bytes 0-999/5000''))
   \<and> map_of (res_headers (fst (ts_proxy (serving partial_segment) scenario_request)))
        (js ''Accept-Ranges'') = Some (String (js ''bytes''))"
proof -
  have 1: "truthy (query_url scenario_request)"
    by (simp add: scenario_request_def js_def)
  have 2: "decodeURIComponent (the (query_url scenario_request)) =
             Some (js ''http://cdn.example/a/index.m3u8'')"
    by (simp add: scenario_request_def scenario_url)
  have 3: "fetch (serving partial_segment) (js ''http://cdn.example/a/index.m3u8'')
             (spread (ts_defaults (headers_range scenario_request))
               (requestHeaders (serving partial_segment) (query_headers scenario_request)))
           = Resolved partial_segment"
    by (simp add: serving_def)
  have 4: "ok partial_segment"
    by (simp add: ok_def partial_segment_def)
  have 5: "headers_get partial_segment (js ''content-range'') = Some (js ''bytes 0-999/5000'')"
    by (simp add: headers_get_def partial_segment_def js_def)
  have 6: "truthy (Some (js ''bytes 0-999/5000''))"
    by (simp add: js_def)
  show ?thesis
    using segment_reply [OF 1 2 3 4] 4 5 6 by simp
qed

text \<open>
  C7, as the claim has it, fails for an upstream response that carries \<open>Content-Range\<close>
  with an empty value: the header is there, the reply has status 200 and no
  \<open>Content-Range\<close>.
\<close>

theorem empty_content_range_is_200:
  "headers_get empty_content_range (js ''content-range'') = Some []
   \<and> ok empty_content_range
   \<and> res_status (fst (ts_proxy (serving empty_content_range) scenario_request)) = 200
   \<and> map_of (res_headers (fst (ts_proxy (serving empty_content_range) scenario_request)))
        (js ''Content-Range'') = None"
  by code_simp

text \<open>
  C8. When \<open>decodeURIComponent\<close> or \<open>JSON.parse\<close> fails on the \<open>headers\<close> parameter, the
  overrides are empty and the request goes on: \<open>fetch\<close> is called once, with the decoded
  URL and exactly the default headers of the handler, and the segment relay answers as it
  does for the same request without the parameter.
\<close>

theorem header_decode_failure_uses_defaults:
  assumes "truthy (query_headers req)"
    and "decodeURIComponent (the (query_headers req)) = None \<or>
         (\<exists>d. decodeURIComponent (the (query_headers req)) = Some d \<and> JSON_parse e d = None)"
    and "truthy (query_url req)"
    and "decodeURIComponent (the (query_url req)) = Some decodedUrl"
  shows "requestHeaders e (query_headers req) = Object []
       \<and> snd (m3u8_proxy e req) = [(decodedUrl, m3u8_defaults)]
       \<and> snd (ts_proxy e req) = [(decodedUrl, ts_defaults (headers_range req))]
       \<and> ts_proxy e (req\<lparr>query_headers := None\<rparr>) = ts_proxy e req"
proof -
  from assms(1,2) have empty: "requestHeaders e (query_headers req) = Object []"
    by (auto simp: requestHeaders_def)
  have none: "requestHeaders e None = Object []"
    by (simp add: requestHeaders_def)
  have same: "ts_proxy e (req\<lparr>query_headers := None\<rparr>) = ts_proxy e req"
    by (simp add: ts_proxy_def empty none Let_def split: option.splits)
  have m3u8: "snd (m3u8_proxy e req) = [(decodedUrl, m3u8_defaults)]"
    using assms(3,4) by (simp add: m3u8_proxy_fetches empty spread_empty_object)
  have ts: "snd (ts_proxy e req) = [(decodedUrl, ts_defaults (headers_range req))]"
    using assms(3,4) by (simp add: ts_proxy_fetches empty spread_empty_object)
  from empty m3u8 ts same show ?thesis
    by (intro conjI)
qed

theorem header_decode_failure_uses_defaults_witness:
  "truthy (Some (js ''%''))
   \<and> decodeURIComponent (js ''%'') = None
   \<and> snd (m3u8_proxy (serving partial_segment) (scenario_request\<lparr>query_headers := Some (js ''%'')\<rparr>))
       = [(js ''http://cdn.example/a/index.m3u8'', m3u8_defaults)]
   \<and> snd (ts_proxy (serving partial_segment) (scenario_request\<lparr>query_headers := Some (js ''%'')\<rparr>))
       = [(js ''http://cdn.example/a/index.m3u8'', ts_defaults None)]"
proof -
  have 1: "truthy (query_headers (scenario_request\<lparr>query_headers := Some (js ''%'')\<rparr>))"
    by (simp add: js_def)
  have 2: "decodeURIComponent (js ''%'') = None"
    by (simp add: js_def)
  have 3: "truthy (query_url (scenario_request\<lparr>query_headers := Some (js ''%'')\<rparr>))"
    by (simp add: scenario_request_def js_def)
  have 4: "decodeURIComponent (the (query_url (scenario_request\<lparr>query_headers := Some (js ''%'')\<rparr>)))
             = Some (js ''http://cdn.example/a/index.m3u8'')"
    by (simp add: scenario_request_def scenario_url)
  have 5: "headers_range (scenario_request\<lparr>query_headers := Some (js ''%'')\<rparr>) = None"
    by (simp add: scenario_request_def)
  have 6: "truthy (Some (js ''%''))"
    by (simp add: js_def)
  from header_decode_failure_uses_defaults [OF 1 _ 3 4, of "serving partial_segment"] 2 5 6
  show ?thesis by simp
qed

text \<open>
  C9. In the rewritten playlist every line that starts with \<open>#\<close>, and every line that
  is not a segment reference in the words of the specification, stands unchanged at the
  position it had: the output has as many lines as the input, and line \<open>i\<close> of the one is
  line \<open>i\<close> of the other.
\<close>

theorem other_lines_unchanged:
  assumes "\<forall>c \<in> set (template (host req)). \<not> isLineTerminator c"
    and "replace_ts_lines (rewrite_callback req baseUrl) content = Inr out"
  shows "length (split_lines out) = length (split_lines content) \<and>
         (\<forall>i < length (split_lines content).
            startsWith (split_lines content ! i) (js ''#'') \<or>
            \<not> segment_reference (split_lines content ! i) \<longrightarrow>
            split_lines out ! i = split_lines content ! i)"
proof -
  have all: "list_all2 (replaced_line (rewrite_callback req baseUrl))
      (split_lines content) (split_lines out)"
    using rewritten_one_line [OF assms(1)] assms(2) by (rule replace_ts_lines_lines)
  then have len: "length (split_lines out) = length (split_lines content)"
    by (simp add: list_all2_lengthD)
  have "split_lines out ! i = split_lines content ! i"
    if i: "i < length (split_lines content)"
      and other: "startsWith (split_lines content ! i) (js ''#'') \<or>
        \<not> segment_reference (split_lines content ! i)"
    for i
  proof -
    from other have "\<not> segment_reference (split_lines content ! i)"
      by (auto simp: segment_reference_def)
    then have "\<not> ts_line (split_lines content ! i)"
      using ts_line_segment_reference by blast
    moreover from all i have "replaced_line (rewrite_callback req baseUrl)
        (split_lines content ! i) (split_lines out ! i)"
      by (rule list_all2_nthD)
    ultimately show ?thesis
      by (simp add: replaced_line_def)
  qed
  with len show ?thesis
    by blast
qed

theorem other_lines_unchanged_witness:
  "replace_ts_lines (rewrite_callback scenario_request (js ''http://cdn.example/a/''))
     scenario_playlist = Inr rewritten_playlist
   \<and> startsWith (split_lines scenario_playlist ! 1) (js ''#'')
   \<and> length (split_lines rewritten_playlist) = length (split_lines scenario_playlist)
   \<and> split_lines rewritten_playlist ! 1 = js ''#EXTINF:10.0,''"
proof -
  have hash: "startsWith (split_lines scenario_playlist ! 1) (js ''#'')"
    unfolding scenario_lines by code_simp
  from other_lines_unchanged [OF scenario_host scenario_rewrite]
  have "length (split_lines rewritten_playlist) = length (split_lines scenario_playlist)"
    and "\<forall>i < length (split_lines scenario_playlist).
            startsWith (split_lines scenario_playlist ! i) (js ''#'') \<or>
            \<not> segment_reference (split_lines scenario_playlist ! i) \<longrightarrow>
            split_lines rewritten_playlist ! i = split_lines scenario_playlist ! i"
    by blast+
  moreover have "1 < length (split_lines scenario_playlist)"
    by (simp add: scenario_lines)
  ultimately have "length (split_lines rewritten_playlist) = length (split_lines scenario_playlist)"
    and "split_lines rewritten_playlist ! 1 = split_lines scenario_playlist ! 1"
    using hash by blast+
  with hash scenario_rewrite show ?thesis
    by (simp add: scenario_lines)
qed

text \<open>
  C10. Whether a reference is resolved against \<open>baseUrl\<close> is decided by the four code
  units \<open>http\<close> at the start of the trimmed line and by nothing else: a line that starts
  with them goes into the proxy link as it is, every other line with \<open>baseUrl\<close> in front.
  So \<open>httpd_seg.ts\<close> is not resolved and \<open>ftp://host/seg.ts\<close> is.
\<close>

theorem http_prefix_decides_resolution:
  assumes "\<not> truthy (query_headers req)"
  shows "rewrite_callback req baseUrl tsFile =
           (case encodeURIComponent
                   (if take 4 (trim tsFile) = js ''http'' then trim tsFile
                    else baseUrl @ trim tsFile) of
              None \<Rightarrow> Inl URIError
            | Some u \<Rightarrow> Inr (origin req @ js ''/ts-proxy?url='' @ u))"
proof -
  have "length (js ''http'') = 4"
    by (simp add: js_def)
  with assms show ?thesis
    by (simp add: rewrite_callback_def resolve_def startsWith_def Let_def split: option.splits)
qed

theorem http_prefix_decides_resolution_witness:
  "\<not> truthy (query_headers scenario_request)
   \<and> rewrite_callback scenario_request (js ''http://cdn.example/a/'') (js ''httpd_seg.ts'') =
       Inr (js ''http://relay.example/ts-proxy?url=httpd_seg.ts'')
   \<and> rewrite_callback scenario_request (js ''http://cdn.example/a/'') (js ''ftp://host/seg.ts'') =
       Inr (js (''http://relay.example/ts-proxy?url='' @
                ''http%3A%2F%2Fcdn.example%2Fa%2Fftp%3A%2F%2Fhost%2Fseg.ts''))"
proof -
  have 1: "\<not> truthy (query_headers scenario_request)"
    by (simp add: scenario_request_def)
  have 2: "(case encodeURIComponent
                   (if take 4 (trim (js ''httpd_seg.ts'')) = js ''http''
                    then trim (js ''httpd_seg.ts'')
                    else js ''http://cdn.example/a/'' @ trim (js ''httpd_seg.ts'')) of
              None \<Rightarrow> Inl URIError
            | Some u \<Rightarrow> Inr (origin scenario_request @ js ''/ts-proxy?url='' @ u)) =
           Inr (js ''http://relay.example/ts-proxy?url=httpd_seg.ts'')"
    by code_simp
  have 3: "(case encodeURIComponent
                   (if take 4 (trim (js ''ftp://host/seg.ts'')) = js ''http''
                    then trim (js ''ftp://host/seg.ts'')
                    else js ''http://cdn.example/a/'' @ trim (js ''ftp://host/seg.ts'')) of
              None \<Rightarrow> Inl URIError
            | Some u \<Rightarrow> Inr (origin scenario_request @ js ''/ts-proxy?url='' @ u)) =
           Inr (js (''http://relay.example/ts-proxy?url='' @
                    ''http%3A%2F%2Fcdn.example%2Fa%2Fftp%3A%2F%2Fhost%2Fseg.ts''))"
    by code_simp
  from http_prefix_decides_resolution [OF 1] 1 2 3
  show ?thesis by simp
qed

end
